theory Spec2Isabelle
  imports Main
begin

section \<open>Text helpers\<close>

text \<open>
  Python strings are modelled as \<open>string\<close>, one \<open>char\<close> per code point, restricted to
  the code points below 256. \<open>isspace\<close> lists the code points below 256 that Python's
  \<open>str.isspace\<close> accepts; \<open>strip\<close> is \<open>str.strip()\<close> without arguments.
\<close>

definition isspace :: "char \<Rightarrow> bool" where
  "isspace c = ((of_char c :: nat) \<in> {9, 10, 11, 12, 13, 28, 29, 30, 31, 32, 133, 160})"

definition strip :: "string \<Rightarrow> string" where
  "strip s = rev (dropWhile isspace (rev (dropWhile isspace s)))"

text \<open>\<open>d.get(key, default)\<close> on a field that may be missing.\<close>

definition get_or :: "'a option \<Rightarrow> 'a \<Rightarrow> 'a" where
  "get_or field dflt = (case field of None \<Rightarrow> dflt | Some v \<Rightarrow> v)"

section \<open>The weight function\<close>

text \<open>\<open>approx_tokens\<close>, identical in \<open>mx/addToCollection.py\<close>,
  \<open>us/state/batchAddStateCollection.py\<close> and the older JSONL loader:
  \<^verbatim>\<open>return max(1, len(text) // 4)\<close>\<close>

definition approx_tokens :: "string \<Rightarrow> int" where
  "approx_tokens text = max 1 (int (length text) div 4)"

section \<open>The sink\<close>

text \<open>
  The vector database is an external collaborator. A bulk insertion either raises an
  exception (of class \<open>Exception\<close>, carrying a message) or completes and exposes the list
  of objects it rejected (\<open>collection.batch.failed_objects\<close>). Its behaviour is a
  parameter: a function from the sink's own state and the batch to an outcome and the next
  state. The world records what the program does to its environment: every batch handed
  to the bulk insertion, every \<open>time.sleep\<close>, and the failure log file.
\<close>

datatype 'o failed_object = FailedObject (message: string) (fo_object: "'o option")

datatype 'o outcome = Raised string | Completed "'o failed_object list"

type_synonym ('k, 'o) sink_fn = "'k \<Rightarrow> 'o list \<Rightarrow> 'o outcome \<times> 'k"

record ('k, 'o, 'e) world =
  sink :: 'k
  sink_calls :: "'o list list"
  sleeps :: "nat list"
  failure_log :: "'e list"

definition bulk_insert ::
  "('k, 'o) sink_fn \<Rightarrow> 'o list \<Rightarrow> ('k, 'o, 'e) world \<Rightarrow> 'o outcome \<times> ('k, 'o, 'e) world" where
  "bulk_insert ins objects w =
     (case ins (sink w) objects of
        (out, k) \<Rightarrow> (out, w\<lparr>sink := k, sink_calls := sink_calls w @ [objects]\<rparr>))"

definition sleep :: "nat \<Rightarrow> ('k, 'o, 'e) world \<Rightarrow> ('k, 'o, 'e) world" where
  "sleep seconds w = w\<lparr>sleeps := sleeps w @ [seconds]\<rparr>"

text \<open>Appending one entry to the failure log (\<open>append_oversized_chunk\<close>,
  \<open>append_failed_chunk\<close>): the file afterwards holds the old entries and the new one.\<close>

definition append_entry :: "'e \<Rightarrow> ('k, 'o, 'e) world \<Rightarrow> ('k, 'o, 'e) world" where
  "append_entry entry w = w\<lparr>failure_log := failure_log w @ [entry]\<rparr>"

text \<open>The batches handed to the sink since the world \<open>w0\<close>.\<close>

definition calls_since :: "('k, 'o, 'e) world \<Rightarrow> ('k, 'o, 'e) world \<Rightarrow> 'o list list" where
  "calls_since w0 w = drop (length (sink_calls w0)) (sink_calls w)"

definition logged_since :: "('k, 'o, 'e) world \<Rightarrow> ('k, 'o, 'e) world \<Rightarrow> 'e list" where
  "logged_since w0 w = drop (length (failure_log w0)) (failure_log w)"

definition sleeps_since :: "('k, 'o, 'e) world \<Rightarrow> ('k, 'o, 'e) world \<Rightarrow> nat list" where
  "sleeps_since w0 w = drop (length (sleeps w0)) (sleeps w)"

section \<open>mx/addToCollection.py\<close>

definition MX_MAX_BATCH_TOKENS :: int where
  "MX_MAX_BATCH_TOKENS = 120000"

text \<open>A paragraph of the input document; each key may be missing.\<close>

record mx_paragraph =
  p_content :: "string option"
  p_priorContent :: "string option"
  p_name :: "string option"
  p_fromArticle :: "string option"

record mx_object =
  o_content :: string
  o_priorContent :: string
  o_contentAndPriorConcatenated :: string
  o_article :: string
  o_fromArticle :: "string list"
  o_document :: string
  o_tipo :: string

record batch_item =
  obj :: mx_object
  item_article :: string
  token_count :: int
  item_paragraph :: mx_paragraph
  document_name :: string
  document_tipo :: string
  file_name :: string

record error_info =
  ei_error :: string
  ei_chunk :: mx_paragraph
  ei_document :: string
  ei_tipo :: string
  ei_file :: string

type_synonym 'k mx_world = "('k, mx_object, error_info) world"

definition create_chunk_object ::
  "mx_paragraph \<Rightarrow> string \<Rightarrow> string \<Rightarrow> bool \<Rightarrow> mx_object \<times> string \<times> int" where
  "create_chunk_object para doc_name doc_tipo only_content =
     (let content = get_or (p_content para) [];
          prior_content = get_or (p_priorContent para) [];
          article = (if only_content then [] else get_or (p_name para) []);
          from_article = (if only_content then [] else get_or (p_fromArticle para) []);
          content_and_prior = strip (prior_content @ '' '' @ content);
          ob = \<lparr>o_content = content, o_priorContent = prior_content,
                o_contentAndPriorConcatenated = content_and_prior,
                o_article = article,
                o_fromArticle = (if from_article \<noteq> [] then [from_article] else []),
                o_document = doc_name, o_tipo = doc_tipo\<rparr>
      in (ob, article, approx_tokens content))"

definition make_error_info :: "string \<Rightarrow> batch_item \<Rightarrow> error_info" where
  "make_error_info e item =
     \<lparr>ei_error = e, ei_chunk = item_paragraph item, ei_document = document_name item,
      ei_tipo = document_tipo item, ei_file = file_name item\<rparr>"

text \<open>The loop \<open>for attempt in range(2)\<close> of \<open>insert_batch_with_retry\<close>, over the
  attempts still to make; falling out of the loop returns \<open>(0, batch_size)\<close>.\<close>

fun insert_attempts ::
  "('k, mx_object) sink_fn \<Rightarrow> batch_item list \<Rightarrow> nat \<Rightarrow> nat list \<Rightarrow> 'k mx_world
   \<Rightarrow> (int \<times> int) \<times> 'k mx_world" where
  "insert_attempts ins batch_items retry_delay [] w = ((0, int (length batch_items)), w)"
| "insert_attempts ins batch_items retry_delay (attempt # rest) w =
     (case bulk_insert ins (map obj batch_items) w of
        (Completed _, w1) \<Rightarrow> ((int (length batch_items), 0), w1)
      | (Raised e, w1) \<Rightarrow>
          if attempt = 0
          then insert_attempts ins batch_items retry_delay rest (sleep retry_delay w1)
          else ((0, int (length batch_items)),
                foldl (\<lambda>w' item. append_entry (make_error_info e item) w') w1 batch_items))"

definition insert_batch_with_retry ::
  "('k, mx_object) sink_fn \<Rightarrow> batch_item list \<Rightarrow> nat \<Rightarrow> 'k mx_world
   \<Rightarrow> (int \<times> int) \<times> 'k mx_world" where
  "insert_batch_with_retry ins batch_items retry_delay w =
     insert_attempts ins batch_items retry_delay [0..<2] w"

text \<open>The input document, as \<open>load_document\<close> returns it, with the name of its file.\<close>

record document =
  d_name :: "string option"
  d_Tipo :: "string option"
  d_onlyContent :: "bool option"
  d_paragraphs_by_bold :: "mx_paragraph list option"

text \<open>The local variables of \<open>process_document\<close> that its loop updates.\<close>

record 'k doc_state =
  mx_current_batch :: "batch_item list"
  mx_current_batch_tokens :: int
  chunks_inserted :: int
  chunks_failed :: int
  mx_env :: "'k mx_world"

text \<open>A call of \<open>insert_batch_with_retry\<close> with the default delay of 60 seconds, its two
  results added to the counters.\<close>

definition flush_batch ::
  "('k, mx_object) sink_fn \<Rightarrow> batch_item list \<Rightarrow> 'k doc_state \<Rightarrow> 'k doc_state" where
  "flush_batch ins items st =
     (case insert_batch_with_retry ins items 60 (mx_env st) of
        ((inserted, failed), w) \<Rightarrow>
          st\<lparr>chunks_inserted := chunks_inserted st + inserted,
             chunks_failed := chunks_failed st + failed, mx_env := w\<rparr>)"

text \<open>The body of the loop over the paragraphs.\<close>

definition process_paragraph ::
  "('k, mx_object) sink_fn \<Rightarrow> string \<Rightarrow> string \<Rightarrow> bool \<Rightarrow> string \<Rightarrow> 'k doc_state \<Rightarrow> mx_paragraph
   \<Rightarrow> 'k doc_state" where
  "process_paragraph ins doc_name doc_tipo only_content fname st para =
     (case create_chunk_object para doc_name doc_tipo only_content of
        (ob, article, tokens) \<Rightarrow>
          let item = \<lparr>obj = ob, item_article = article, token_count = tokens,
                      item_paragraph = para, document_name = doc_name,
                      document_tipo = doc_tipo, file_name = fname\<rparr>
          in if mx_current_batch st \<noteq> [] \<and> mx_current_batch_tokens st + tokens > MX_MAX_BATCH_TOKENS
             then (flush_batch ins (mx_current_batch st) st)
                    \<lparr>mx_current_batch := [item], mx_current_batch_tokens := tokens\<rparr>
             else if tokens > MX_MAX_BATCH_TOKENS
             then (let st1 = (if mx_current_batch st \<noteq> []
                              then (flush_batch ins (mx_current_batch st) st)
                                     \<lparr>mx_current_batch := [], mx_current_batch_tokens := 0\<rparr>
                              else st)
                   in flush_batch ins [item] st1)
             else st\<lparr>mx_current_batch := mx_current_batch st @ [item],
                     mx_current_batch_tokens := mx_current_batch_tokens st + tokens\<rparr>)"

definition process_document ::
  "('k, mx_object) sink_fn \<Rightarrow> string \<Rightarrow> document \<Rightarrow> 'k mx_world \<Rightarrow> (int \<times> int) \<times> 'k mx_world" where
  "process_document ins fname data w =
     (let doc_name = get_or (d_name data) [];
          doc_tipo = get_or (d_Tipo data) [];
          only_content = get_or (d_onlyContent data) False;
          paragraphs = get_or (d_paragraphs_by_bold data) [];
          st0 = \<lparr>mx_current_batch = [], mx_current_batch_tokens = 0, chunks_inserted = 0,
                 chunks_failed = 0, mx_env = w\<rparr>;
          st1 = foldl (process_paragraph ins doc_name doc_tipo only_content fname) st0 paragraphs;
          st2 = (if mx_current_batch st1 \<noteq> [] then flush_batch ins (mx_current_batch st1) st1 else st1)
      in ((chunks_inserted st2, chunks_failed st2), mx_env st2))"

section \<open>Parent hierarchy of a JSONL line\<close>

text \<open>
  A line of the JSONL input, once parsed, is an object whose keys other than \<open>chunks\<close>
  carry strings (the names of the ancestors among them). \<open>line_fields\<close> lists these keys
  and values in the order of the object; \<open>line_chunks\<close> is the \<open>chunks\<close> list when the
  key is present.
\<close>

record chunk =
  c_content :: "string option"
  c_priorContent :: "string option"

record line_data =
  line_fields :: "(string \<times> string) list"
  line_chunks :: "chunk list option"

datatype py_error = ValueError | KeyError | IndexError | SinkError string

definition startswith :: "string \<Rightarrow> string \<Rightarrow> bool" where
  "startswith s p = (take (length p) s = p)"

text \<open>\<open>s.split(sep)\<close> with a one-character separator.\<close>

fun split_on :: "char \<Rightarrow> string \<Rightarrow> string list" where
  "split_on sep [] = [[]]"
| "split_on sep (c # cs) =
     (if c = sep then [] # split_on sep cs
      else (case split_on sep cs of [] \<Rightarrow> [[c]] | w # ws \<Rightarrow> (c # w) # ws))"

text \<open>\<open>int(s)\<close> on a string without underscores: surrounding whitespace is dropped, one
  sign is allowed, and at least one decimal digit must follow; anything else is a
  \<open>ValueError\<close>.\<close>

definition is_digit :: "char \<Rightarrow> bool" where
  "is_digit c = (48 \<le> (of_char c :: nat) \<and> (of_char c :: nat) \<le> 57)"

definition digits_value :: "string \<Rightarrow> nat" where
  "digits_value ds = foldl (\<lambda>acc c. 10 * acc + ((of_char c :: nat) - 48)) 0 ds"

definition parse_digits :: "string \<Rightarrow> nat option" where
  "parse_digits ds = (if ds \<noteq> [] \<and> list_all is_digit ds then Some (digits_value ds) else None)"

definition py_int :: "string \<Rightarrow> int option" where
  "py_int s =
     (case strip s of
        [] \<Rightarrow> None
      | c # cs \<Rightarrow>
          if c = CHR ''+'' then map_option int (parse_digits cs)
          else if c = CHR ''-'' then map_option (\<lambda>n. - int n) (parse_digits cs)
          else map_option int (parse_digits (c # cs)))"

text \<open>The sort key \<open>lambda x: int(x.split('_')[1])\<close>.\<close>

definition parent_number :: "string \<Rightarrow> py_error + int" where
  "parent_number x =
     (case split_on CHR ''_'' x of
        _ # n # _ \<Rightarrow> (case py_int n of None \<Rightarrow> Inl ValueError | Some v \<Rightarrow> Inr v)
      | _ \<Rightarrow> Inl IndexError)"

text \<open>Evaluating the key of every element, stopping at the first exception.\<close>

fun with_keys :: "string list \<Rightarrow> py_error + (int \<times> string) list" where
  "with_keys [] = Inr []"
| "with_keys (k # ks) =
     (case parent_number k of
        Inl e \<Rightarrow> Inl e
      | Inr n \<Rightarrow> (case with_keys ks of Inl e \<Rightarrow> Inl e | Inr rest \<Rightarrow> Inr ((n, k) # rest)))"

text \<open>\<open>[data[k] for k in keys]\<close>.\<close>

fun lookup_all :: "(string \<times> string) list \<Rightarrow> string list \<Rightarrow> py_error + string list" where
  "lookup_all data [] = Inr []"
| "lookup_all data (k # ks) =
     (case map_of data k of
        None \<Rightarrow> Inl KeyError
      | Some v \<Rightarrow> (case lookup_all data ks of Inl e \<Rightarrow> Inl e | Inr vs \<Rightarrow> Inr (v # vs)))"

text \<open>\<open>extract_parent_info\<close> of the older loader; lines 88 to 95 of
  \<open>us/state/batchAddStateCollection.py\<close> are the same statements inline. \<open>sorted\<close> is
  stable, as \<open>sort_key\<close> is.\<close>

definition extract_parent_info ::
  "(string \<times> string) list \<Rightarrow> py_error + (string \<times> string list)" where
  "extract_parent_info data =
     (case with_keys (filter (\<lambda>k. startswith k ''parent_'') (map fst data)) of
        Inl e \<Rightarrow> Inl e
      | Inr keyed \<Rightarrow>
          let parent_keys = map snd (sort_key fst keyed);
              article = (if parent_keys \<noteq> []
                         then get_or (map_of data (last parent_keys)) [] else [])
          in if length parent_keys > 1
             then (case lookup_all data (tl parent_keys) of
                     Inl e \<Rightarrow> Inl e
                   | Inr from_article \<Rightarrow> Inr (article, from_article))
             else Inr (article, []))"

section \<open>us/state/batchAddStateCollection.py\<close>

definition US_MAX_BATCH_TOKENS :: int where
  "US_MAX_BATCH_TOKENS = 136000"

definition fileName :: string where
  "fileName = ''calTitle1_regulations_content''"

record properties =
  content :: string
  priorContent :: string
  contentAndPriorConcatenated :: string
  article :: string
  fromArticle :: "string list"
  document :: string

record failed_chunk =
  fc_error :: string
  fc_properties :: "properties option"
  fc_batch_number :: int

type_synonym 'k us_world = "('k, properties, failed_chunk) world"

text \<open>The module-level variables of the script.\<close>

record 'k us_state =
  total_chunks_processed :: int
  total_chunks_imported :: int
  total_failed :: int
  total_batches :: int
  current_batch :: "properties list"
  current_batch_tokens :: int
  us_env :: "'k us_world"

definition send_batch ::
  "('k, properties) sink_fn \<Rightarrow> properties list \<Rightarrow> 'k us_state \<Rightarrow> 'k us_state" where
  "send_batch ins batch_objects st =
     (if batch_objects = [] then st
      else
        let st1 = st\<lparr>total_batches := total_batches st + 1\<rparr>;
            batch_size = int (length batch_objects)
        in case bulk_insert ins batch_objects (us_env st1) of
             (Completed _, w) \<Rightarrow>
               st1\<lparr>total_chunks_imported := total_chunks_imported st1 + batch_size,
                   us_env := w\<rparr>
           | (Raised e, w) \<Rightarrow>
               st1\<lparr>total_failed := total_failed st1 + batch_size,
                   us_env := foldl (\<lambda>w' ob. append_entry
                                      \<lparr>fc_error = e, fc_properties = Some ob,
                                       fc_batch_number = total_batches st1\<rparr> w')
                                   w batch_objects\<rparr>)"

definition chunk_properties :: "chunk \<Rightarrow> string \<Rightarrow> string list \<Rightarrow> string \<Rightarrow> properties" where
  "chunk_properties ch art from_art doc =
     (let c = get_or (c_content ch) [];
          prior_content = get_or (c_priorContent ch) []
      in \<lparr>content = c, priorContent = prior_content,
          contentAndPriorConcatenated = strip (prior_content @ '' '' @ c),
          article = art, fromArticle = from_art, document = doc\<rparr>)"

text \<open>The body of the loop \<open>for chunk in chunks\<close> (lines 100 to 143).\<close>

definition process_chunk ::
  "('k, properties) sink_fn \<Rightarrow> string \<Rightarrow> string list \<Rightarrow> 'k us_state \<Rightarrow> chunk \<Rightarrow> 'k us_state" where
  "process_chunk ins art from_art st0 ch =
     (let props = chunk_properties ch art from_art fileName;
          chunk_tokens = approx_tokens (get_or (c_content ch) []);
          st = st0\<lparr>total_chunks_processed := total_chunks_processed st0 + 1\<rparr>
      in if chunk_tokens > US_MAX_BATCH_TOKENS
         then (let st1 = (if current_batch st \<noteq> []
                          then (send_batch ins (current_batch st) st)
                                 \<lparr>current_batch := [], current_batch_tokens := 0\<rparr>
                          else st)
               in send_batch ins [props] st1)
         else if current_batch_tokens st + chunk_tokens > US_MAX_BATCH_TOKENS
         then (send_batch ins (current_batch st) st)
                \<lparr>current_batch := [props], current_batch_tokens := chunk_tokens\<rparr>
         else st\<lparr>current_batch := current_batch st @ [props],
                 current_batch_tokens := current_batch_tokens st + chunk_tokens\<rparr>)"

text \<open>A line of the file: \<open>json.loads\<close> raises \<open>JSONDecodeError\<close> or returns the object.\<close>

datatype jsonl_line = Malformed | Parsed line_data

text \<open>The body of the loop over the lines. A \<open>JSONDecodeError\<close> is caught and the line
  skipped; any other exception leaves the loop, with the state reached.\<close>

definition process_line ::
  "('k, properties) sink_fn \<Rightarrow> 'k us_state \<Rightarrow> jsonl_line
   \<Rightarrow> (py_error \<times> 'k us_state) + 'k us_state" where
  "process_line ins st line =
     (case line of
        Malformed \<Rightarrow> Inr st
      | Parsed data \<Rightarrow>
          (case extract_parent_info (line_fields data) of
             Inl e \<Rightarrow> Inl (e, st)
           | Inr (art, from_art) \<Rightarrow>
               Inr (foldl (process_chunk ins art from_art) st (get_or (line_chunks data) []))))"

fun process_lines ::
  "('k, properties) sink_fn \<Rightarrow> 'k us_state \<Rightarrow> jsonl_line list
   \<Rightarrow> (py_error \<times> 'k us_state) + 'k us_state" where
  "process_lines ins st [] = Inr st"
| "process_lines ins st (line # rest) =
     (case process_line ins st line of
        Inl err \<Rightarrow> Inl err
      | Inr st' \<Rightarrow> process_lines ins st' rest)"

definition us_initial :: "'k us_world \<Rightarrow> 'k us_state" where
  "us_initial w =
     \<lparr>total_chunks_processed = 0, total_chunks_imported = 0, total_failed = 0,
      total_batches = 0, current_batch = [], current_batch_tokens = 0, us_env = w\<rparr>"

text \<open>The whole script, from the counters' initialisation to the final flush.\<close>

definition batch_add_state_collection ::
  "('k, properties) sink_fn \<Rightarrow> jsonl_line list \<Rightarrow> 'k us_world
   \<Rightarrow> (py_error \<times> 'k us_state) + 'k us_state" where
  "batch_add_state_collection ins lines w =
     (case process_lines ins (us_initial w) lines of
        Inl err \<Rightarrow> Inl err
      | Inr st \<Rightarrow>
          Inr (if current_batch st \<noteq> [] then send_batch ins (current_batch st) st else st))"

section \<open>us/state/old/batchAddStateCollectionOllamaV2.py\<close>

text \<open>\<open>str.lower()\<close> on the code points below 256, and \<open>pattern in s\<close>.\<close>

definition lower_char :: "char \<Rightarrow> char" where
  "lower_char c =
     (let n = (of_char c :: nat)
      in if (65 \<le> n \<and> n \<le> 90) \<or> (192 \<le> n \<and> n \<le> 222 \<and> n \<noteq> 215)
         then char_of (n + 32) else c)"

definition lower :: "string \<Rightarrow> string" where
  "lower s = map lower_char s"

fun contains :: "string \<Rightarrow> string \<Rightarrow> bool" where
  "contains pattern [] = (pattern = [])"
| "contains pattern (c # cs) = (startswith (c # cs) pattern \<or> contains pattern cs)"

text \<open>The dictionaries \<open>stats\<close> (\<open>processed\<close>, \<open>imported\<close>, \<open>failed\<close>, \<open>batches\<close>) and
  \<open>batch_state\<close> (\<open>objects\<close>, \<open>tokens\<close>), both mutated in place by the helpers, with the
  world.\<close>

record 'k loader_state =
  processed :: int
  imported :: int
  failed :: int
  batches :: int
  objects :: "properties list"
  tokens :: int
  ol_env :: "'k us_world"

definition is_disk_full :: "string \<Rightarrow> bool" where
  "is_disk_full error_msg =
     (contains ''disk usage too high'' (lower error_msg) \<or> contains ''read-only'' (lower error_msg))"

text \<open>\<open>send_batch_to_weaviate\<close>; the argument \<open>current_tokens\<close> is only printed. The
  exception re-raised by \<open>raise\<close> is the result \<open>Inl\<close>, with the state it leaves.\<close>

definition send_batch_to_weaviate ::
  "('k, properties) sink_fn \<Rightarrow> properties list \<Rightarrow> int \<Rightarrow> 'k loader_state
   \<Rightarrow> (py_error \<times> 'k loader_state) + 'k loader_state" where
  "send_batch_to_weaviate ins batch_objects batch_number st =
     (if batch_objects = [] then Inr st
      else
        let batch_size = int (length batch_objects)
        in case bulk_insert ins batch_objects (ol_env st) of
             (Completed failed_objects, w) \<Rightarrow>
               if failed_objects \<noteq> []
               then (let st1 = foldl (\<lambda>s fo. s\<lparr>failed := failed s + 1,
                                               ol_env := append_entry
                                                 \<lparr>fc_error = message fo,
                                                  fc_properties = fo_object fo,
                                                  fc_batch_number = batch_number\<rparr> (ol_env s)\<rparr>)
                                      (st\<lparr>ol_env := w\<rparr>) failed_objects;
                         successful = batch_size - int (length failed_objects)
                     in Inr (st1\<lparr>imported := imported st1 + successful\<rparr>))
               else Inr (st\<lparr>imported := imported st + batch_size, ol_env := w\<rparr>)
           | (Raised error_msg, w) \<Rightarrow>
               let st1 = st\<lparr>failed := failed st + batch_size, ol_env := w\<rparr>
               in if is_disk_full error_msg then Inl (SinkError error_msg, st1)
                  else Inr (st1\<lparr>ol_env := foldl (\<lambda>w' ob. append_entry
                                                 \<lparr>fc_error = error_msg, fc_properties = Some ob,
                                                  fc_batch_number = batch_number\<rparr> w')
                                              w batch_objects\<rparr>))"

definition should_send_batch :: "int \<Rightarrow> int \<Rightarrow> int \<Rightarrow> bool" where
  "should_send_batch current_tokens chunk_tokens max_tokens =
     (current_tokens + chunk_tokens > max_tokens)"

definition handle_oversized_chunk ::
  "('k, properties) sink_fn \<Rightarrow> properties \<Rightarrow> 'k loader_state
   \<Rightarrow> (py_error \<times> 'k loader_state) + 'k loader_state" where
  "handle_oversized_chunk ins props st =
     (let st1 = st\<lparr>batches := batches st + 1\<rparr>
      in send_batch_to_weaviate ins [props] (batches st1) st1)"

text \<open>The four statements that send the pending batch and empty it, written twice in
  \<open>process_chunks_from_line\<close> (lines 187 to 192 and 199 to 204).\<close>

definition send_pending ::
  "('k, properties) sink_fn \<Rightarrow> 'k loader_state \<Rightarrow> (py_error \<times> 'k loader_state) + 'k loader_state" where
  "send_pending ins st =
     (let st1 = st\<lparr>batches := batches st + 1\<rparr>
      in case send_batch_to_weaviate ins (objects st1) (batches st1) st1 of
           Inl err \<Rightarrow> Inl err
         | Inr st2 \<Rightarrow> Inr (st2\<lparr>objects := [], tokens := 0\<rparr>))"

text \<open>The body of the loop over the chunks of a line, and the loop.\<close>

definition process_line_chunk ::
  "('k, properties) sink_fn \<Rightarrow> string \<Rightarrow> string list \<Rightarrow> string \<Rightarrow> int \<Rightarrow> 'k loader_state \<Rightarrow> chunk
   \<Rightarrow> (py_error \<times> 'k loader_state) + 'k loader_state" where
  "process_line_chunk ins art from_art doc max_tokens st0 ch =
     (let props = chunk_properties ch art from_art doc;
          chunk_tokens = approx_tokens (content props);
          st = st0\<lparr>processed := processed st0 + 1\<rparr>
      in if chunk_tokens > max_tokens
         then (case (if objects st \<noteq> [] then send_pending ins st else Inr st) of
                 Inl err \<Rightarrow> Inl err
               | Inr st1 \<Rightarrow> handle_oversized_chunk ins props st1)
         else (case (if should_send_batch (tokens st) chunk_tokens max_tokens
                     then send_pending ins st else Inr st) of
                 Inl err \<Rightarrow> Inl err
               | Inr st1 \<Rightarrow> Inr (st1\<lparr>objects := objects st1 @ [props],
                                     tokens := tokens st1 + chunk_tokens\<rparr>)))"

fun process_line_chunks ::
  "('k, properties) sink_fn \<Rightarrow> string \<Rightarrow> string list \<Rightarrow> string \<Rightarrow> int \<Rightarrow> 'k loader_state
   \<Rightarrow> chunk list \<Rightarrow> (py_error \<times> 'k loader_state) + 'k loader_state" where
  "process_line_chunks ins art from_art doc max_tokens st [] = Inr st"
| "process_line_chunks ins art from_art doc max_tokens st (ch # rest) =
     (case process_line_chunk ins art from_art doc max_tokens st ch of
        Inl err \<Rightarrow> Inl err
      | Inr st' \<Rightarrow> process_line_chunks ins art from_art doc max_tokens st' rest)"

definition process_chunks_from_line ::
  "('k, properties) sink_fn \<Rightarrow> line_data \<Rightarrow> string \<Rightarrow> int \<Rightarrow> 'k loader_state
   \<Rightarrow> (py_error \<times> 'k loader_state) + 'k loader_state" where
  "process_chunks_from_line ins data doc max_tokens st =
     (case extract_parent_info (line_fields data) of
        Inl e \<Rightarrow> Inl (e, st)
      | Inr (art, from_art) \<Rightarrow>
          process_line_chunks ins art from_art doc max_tokens st (get_or (line_chunks data) []))"

text \<open>The loop over the lines of \<open>process_jsonl_file\<close>: a \<open>JSONDecodeError\<close> is caught
  and the line skipped, every other exception leaves the function.\<close>

fun process_jsonl_lines ::
  "('k, properties) sink_fn \<Rightarrow> string \<Rightarrow> int \<Rightarrow> 'k loader_state \<Rightarrow> jsonl_line list
   \<Rightarrow> (py_error \<times> 'k loader_state) + 'k loader_state" where
  "process_jsonl_lines ins doc max_tokens st [] = Inr st"
| "process_jsonl_lines ins doc max_tokens st (Malformed # rest) =
     process_jsonl_lines ins doc max_tokens st rest"
| "process_jsonl_lines ins doc max_tokens st (Parsed data # rest) =
     (case process_chunks_from_line ins data doc max_tokens st of
        Inl err \<Rightarrow> Inl err
      | Inr st' \<Rightarrow> process_jsonl_lines ins doc max_tokens st' rest)"

definition loader_initial :: "'k us_world \<Rightarrow> 'k loader_state" where
  "loader_initial w =
     \<lparr>processed = 0, imported = 0, failed = 0, batches = 0, objects = [], tokens = 0,
      ol_env = w\<rparr>"

definition process_jsonl_file ::
  "('k, properties) sink_fn \<Rightarrow> jsonl_line list \<Rightarrow> string \<Rightarrow> int \<Rightarrow> 'k us_world
   \<Rightarrow> (py_error \<times> 'k loader_state) + 'k loader_state" where
  "process_jsonl_file ins lines doc max_tokens w =
     (case process_jsonl_lines ins doc max_tokens (loader_initial w) lines of
        Inl err \<Rightarrow> Inl err
      | Inr st \<Rightarrow>
          if objects st \<noteq> []
          then (let st1 = st\<lparr>batches := batches st + 1\<rparr>
                in send_batch_to_weaviate ins (objects st1) (batches st1) st1)
          else Inr st)"

section \<open>mx/populateCollection.py and us/federal/populateCollections.py\<close>

text \<open>
  The two collections are written through batch contexts whose \<open>add_object\<close> returns the
  identifier of the object added. The store lists the objects added to each collection,
  articles with their identifier, chunks with their identifier and the reference they
  carry, if any. Where the identifiers come from is a parameter: a function from the
  state of their source to an identifier and the next state.
\<close>

record sub_chunk =
  sc_content :: "string option"
  sc_name :: "string option"
  sc_start_offset :: "int option"

record article_data =
  full_content :: "string option"
  sub_chunks :: "sub_chunk list option"

record mx_data =
  md_document_name :: "string option"
  md_Tipo :: "string option"
  md_articles :: "article_data list option"

record article_object =
  ao_content :: string
  ao_article :: string
  ao_document :: string

record chunk_object =
  co_content :: string
  co_article :: string
  co_tipo :: string
  co_document :: string
  co_start_offset :: int

record ('g, 'u) store =
  uuid_source :: 'g
  articles_added :: "('u \<times> article_object) list"
  chunks_added :: "('u \<times> chunk_object \<times> 'u option) list"

type_synonym ('g, 'u) uuid_fn = "'g \<Rightarrow> 'u \<times> 'g"

definition add_article ::
  "('g, 'u) uuid_fn \<Rightarrow> article_object \<Rightarrow> ('g, 'u) store \<Rightarrow> 'u \<times> ('g, 'u) store" where
  "add_article gen props s =
     (case gen (uuid_source s) of
        (u, g) \<Rightarrow> (u, s\<lparr>uuid_source := g, articles_added := articles_added s @ [(u, props)]\<rparr>))"

definition add_chunk ::
  "('g, 'u) uuid_fn \<Rightarrow> chunk_object \<Rightarrow> 'u option \<Rightarrow> ('g, 'u) store \<Rightarrow> ('g, 'u) store" where
  "add_chunk gen props reference s =
     (case gen (uuid_source s) of
        (u, g) \<Rightarrow> s\<lparr>uuid_source := g, chunks_added := chunks_added s @ [(u, props, reference)]\<rparr>)"

text \<open>\<open>str(n)\<close> for a natural number.\<close>

fun str_nat :: "nat \<Rightarrow> string" where
  "str_nat n = (if n < 10 then [char_of (48 + n)] else str_nat (n div 10) @ [char_of (48 + n mod 10)])"

text \<open>The name given to an article: that of its first sub-chunk, or \<open>article_\<close> and its
  index when it has none; and the properties of the article object.\<close>

definition article_properties :: "string \<Rightarrow> nat \<Rightarrow> article_data \<Rightarrow> article_object" where
  "article_properties doc_name idx entry =
     (let subs = get_or (sub_chunks entry) [];
          article_name = (case subs of [] \<Rightarrow> ''article_'' @ str_nat idx
                                     | c # _ \<Rightarrow> get_or (sc_name c) [])
      in \<lparr>ao_content = get_or (full_content entry) [], ao_article = article_name,
          ao_document = doc_name\<rparr>)"

text \<open>The local variables of step 1: the dictionary \<open>article_uuids\<close>, from the index of an
  article (an entry of the list) to its identifier or \<open>None\<close>, and the two counters.\<close>

record ('g, 'u) step1 =
  article_uuids :: "nat \<rightharpoonup> 'u option"
  inserted_articles :: int
  skipped_articles :: int
  store1 :: "('g, 'u) store"

fun insert_articles ::
  "('g, 'u) uuid_fn \<Rightarrow> string \<Rightarrow> nat \<Rightarrow> article_data list \<Rightarrow> ('g, 'u) step1 \<Rightarrow> ('g, 'u) step1" where
  "insert_articles gen doc_name idx [] st = st"
| "insert_articles gen doc_name idx (entry # rest) st =
     insert_articles gen doc_name (idx + 1) rest
       (if strip (get_or (full_content entry) []) \<noteq> []
        then (case add_article gen (article_properties doc_name idx entry) (store1 st) of
                (article_uuid, s) \<Rightarrow>
                  st\<lparr>article_uuids := (article_uuids st)(idx \<mapsto> Some article_uuid),
                     inserted_articles := inserted_articles st + 1,
                     store1 := s\<rparr>)
        else st\<lparr>article_uuids := (article_uuids st)(idx \<mapsto> None),
                skipped_articles := skipped_articles st + 1\<rparr>)"

definition sub_chunk_properties :: "string \<Rightarrow> string \<Rightarrow> sub_chunk \<Rightarrow> chunk_object" where
  "sub_chunk_properties tipo doc_name c =
     \<lparr>co_content = get_or (sc_content c) [], co_article = get_or (sc_name c) [],
      co_tipo = tipo, co_document = doc_name, co_start_offset = get_or (sc_start_offset c) 0\<rparr>"

text \<open>\<open>article_uuids.get(article_idx)\<close>: \<open>None\<close> for a missing key as for a stored \<open>None\<close>.\<close>

definition uuid_get :: "(nat \<rightharpoonup> 'u option) \<Rightarrow> nat \<Rightarrow> 'u option" where
  "uuid_get uuids idx = (case uuids idx of None \<Rightarrow> None | Some v \<Rightarrow> v)"

record ('g, 'u) step2 =
  chunk_count :: int
  chunks_with_reference :: int
  chunks_without_reference :: int
  store2 :: "('g, 'u) store"

text \<open>The inner loop of step 2, over the sub-chunks of one article.\<close>

fun insert_sub_chunks ::
  "('g, 'u) uuid_fn \<Rightarrow> string \<Rightarrow> string \<Rightarrow> 'u option \<Rightarrow> sub_chunk list \<Rightarrow> ('g, 'u) step2
   \<Rightarrow> ('g, 'u) step2" where
  "insert_sub_chunks gen tipo doc_name article_uuid [] st = st"
| "insert_sub_chunks gen tipo doc_name article_uuid (c # rest) st =
     insert_sub_chunks gen tipo doc_name article_uuid rest
       ((case article_uuid of
           Some u \<Rightarrow>
             st\<lparr>store2 := add_chunk gen (sub_chunk_properties tipo doc_name c) (Some u) (store2 st),
                chunks_with_reference := chunks_with_reference st + 1\<rparr>
         | None \<Rightarrow>
             st\<lparr>store2 := add_chunk gen (sub_chunk_properties tipo doc_name c) None (store2 st),
                chunks_without_reference := chunks_without_reference st + 1\<rparr>)
        \<lparr>chunk_count := chunk_count st + 1\<rparr>)"

fun insert_chunks ::
  "('g, 'u) uuid_fn \<Rightarrow> string \<Rightarrow> string \<Rightarrow> (nat \<rightharpoonup> 'u option) \<Rightarrow> nat \<Rightarrow> article_data list
   \<Rightarrow> ('g, 'u) step2 \<Rightarrow> ('g, 'u) step2" where
  "insert_chunks gen tipo doc_name uuids idx [] st = st"
| "insert_chunks gen tipo doc_name uuids idx (entry # rest) st =
     insert_chunks gen tipo doc_name uuids (idx + 1) rest
       (if get_or (sub_chunks entry) [] = [] then st
        else insert_sub_chunks gen tipo doc_name (uuid_get uuids idx)
               (get_or (sub_chunks entry) []) st)"

text \<open>\<open>populate_collections_batch\<close> of \<open>mx/populateCollection.py\<close>: step 1 over all the
  articles, then step 2. It returns the number of articles inserted and of chunks.\<close>

definition step1_of :: "('g, 'u) uuid_fn \<Rightarrow> mx_data \<Rightarrow> ('g, 'u) store \<Rightarrow> ('g, 'u) step1" where
  "step1_of gen data s =
     insert_articles gen (get_or (md_document_name data) []) 0 (get_or (md_articles data) [])
       \<lparr>article_uuids = Map.empty, inserted_articles = 0, skipped_articles = 0, store1 = s\<rparr>"

definition step2_of ::
  "('g, 'u) uuid_fn \<Rightarrow> mx_data \<Rightarrow> ('g, 'u) step1 \<Rightarrow> ('g, 'u) step2" where
  "step2_of gen data st1 =
     insert_chunks gen (get_or (md_Tipo data) []) (get_or (md_document_name data) [])
       (article_uuids st1) 0 (get_or (md_articles data) [])
       \<lparr>chunk_count = 0, chunks_with_reference = 0, chunks_without_reference = 0,
        store2 = store1 st1\<rparr>"

definition populate_collections_batch ::
  "('g, 'u) uuid_fn \<Rightarrow> mx_data \<Rightarrow> ('g, 'u) store \<Rightarrow> (int \<times> int) \<times> ('g, 'u) store" where
  "populate_collections_batch gen data s =
     (let st1 = step1_of gen data s; st2 = step2_of gen data st1
      in ((inserted_articles st1, chunk_count st2), store2 st2))"

text \<open>Step 1 of \<open>populate_collections_batch\<close> of \<open>us/federal/populateCollections.py\<close> (lines
  43 to 52): every article is added; a missing key raises \<open>KeyError\<close>. The dictionary
  goes from the article's name to its identifier.\<close>

record federal_article =
  fa_full_content :: "string option"
  fa_article_name :: "string option"

fun federal_insert_articles ::
  "('g, 'u) uuid_fn \<Rightarrow> string \<Rightarrow> federal_article list \<Rightarrow> (string \<rightharpoonup> 'u) \<times> ('g, 'u) store
   \<Rightarrow> py_error + (string \<rightharpoonup> 'u) \<times> ('g, 'u) store" where
  "federal_insert_articles gen doc_name [] st = Inr st"
| "federal_insert_articles gen doc_name (entry # rest) (uuids, s) =
     (case fa_full_content entry of
        None \<Rightarrow> Inl KeyError
      | Some text \<Rightarrow>
          (case fa_article_name entry of
             None \<Rightarrow> Inl KeyError
           | Some name \<Rightarrow>
               (case add_article gen \<lparr>ao_content = text, ao_article = name,
                                      ao_document = doc_name\<rparr> s of
                  (article_uuid, s') \<Rightarrow>
                    federal_insert_articles gen doc_name rest
                      (uuids(name \<mapsto> article_uuid), s'))))"

section \<open>Notions used in the statements\<close>

definition mx_weight :: "mx_object \<Rightarrow> int" where
  "mx_weight ob = approx_tokens (o_content ob)"

definition us_weight :: "properties \<Rightarrow> int" where
  "us_weight ob = approx_tokens (content ob)"

definition within_limit :: "('o \<Rightarrow> int) \<Rightarrow> int \<Rightarrow> 'o list \<Rightarrow> bool" where
  "within_limit weight limit batch =
     (sum_list (map weight batch) \<le> limit
      \<or> (case batch of [r] \<Rightarrow> weight r > limit | _ \<Rightarrow> False))"

definition calls_ok :: "('o list \<Rightarrow> bool) \<Rightarrow> ('k, 'o, 'e) world \<Rightarrow> ('k, 'o, 'e) world \<Rightarrow> bool" where
  "calls_ok P w0 w = (\<exists>new. sink_calls w = sink_calls w0 @ new \<and> list_all P new)"

definition mx_good :: "mx_object list \<Rightarrow> bool" where
  "mx_good b = (b \<noteq> [] \<and> within_limit mx_weight MX_MAX_BATCH_TOKENS b)"

definition mx_batch_ok :: "'k doc_state \<Rightarrow> bool" where
  "mx_batch_ok st =
     (mx_current_batch_tokens st = sum_list (map token_count (mx_current_batch st))
      \<and> (\<forall>item \<in> set (mx_current_batch st). token_count item = mx_weight (obj item))
      \<and> within_limit mx_weight MX_MAX_BATCH_TOKENS (map obj (mx_current_batch st)))"

definition mx_start :: "'k mx_world \<Rightarrow> 'k doc_state" where
  "mx_start w = \<lparr>mx_current_batch = [], mx_current_batch_tokens = 0, chunks_inserted = 0,
                 chunks_failed = 0, mx_env = w\<rparr>"

definition mx_finish :: "('k, mx_object) sink_fn \<Rightarrow> 'k doc_state \<Rightarrow> 'k doc_state" where
  "mx_finish ins st = (if mx_current_batch st \<noteq> [] then flush_batch ins (mx_current_batch st) st else st)"

definition mx_result :: "'k doc_state \<Rightarrow> (int \<times> int) \<times> 'k mx_world" where
  "mx_result st = ((chunks_inserted st, chunks_failed st), mx_env st)"

definition us_good :: "properties list \<Rightarrow> bool" where
  "us_good b = (b \<noteq> [] \<and> within_limit us_weight US_MAX_BATCH_TOKENS b)"

definition us_batch_ok :: "'k us_state \<Rightarrow> bool" where
  "us_batch_ok st =
     (current_batch_tokens st = sum_list (map us_weight (current_batch st))
      \<and> current_batch_tokens st \<le> US_MAX_BATCH_TOKENS
      \<and> total_chunks_imported st + total_failed st + int (length (current_batch st))
          = total_chunks_processed st)"

text \<open>The result of a line, whether it ends normally or by an exception.\<close>

definition final_state :: "('e \<times> 's) + 's \<Rightarrow> 's" where
  "final_state r = (case r of Inl (e, st) \<Rightarrow> st | Inr st \<Rightarrow> st)"

definition chunk_total :: "jsonl_line list \<Rightarrow> nat" where
  "chunk_total lines =
     sum_list (map (\<lambda>line. case line of Malformed \<Rightarrow> 0
                             | Parsed data \<Rightarrow> length (get_or (line_chunks data) [])) lines)"

definition ol_good :: "int \<Rightarrow> properties list \<Rightarrow> bool" where
  "ol_good max_tokens b = (b \<noteq> [] \<and> within_limit us_weight max_tokens b)"

definition ol_weight_ok :: "int \<Rightarrow> 'k loader_state \<Rightarrow> bool" where
  "ol_weight_ok max_tokens st =
     (tokens st = sum_list (map us_weight (objects st))
      \<and> (objects st = [] \<or> tokens st \<le> max_tokens))"

definition ol_count_ok :: "'k loader_state \<Rightarrow> bool" where
  "ol_count_ok st = (imported st + failed st + int (length (objects st)) = processed st)"

definition rejected_entry :: "int \<Rightarrow> properties failed_object \<Rightarrow> failed_chunk" where
  "rejected_entry batch_number fo =
     \<lparr>fc_error = message fo, fc_properties = fo_object fo, fc_batch_number = batch_number\<rparr>"

definition ol_res_ok ::
  "int \<Rightarrow> 'k us_world \<Rightarrow> (py_error \<times> 'k loader_state) + 'k loader_state \<Rightarrow> bool" where
  "ol_res_ok m w0 r =
     (calls_ok (ol_good m) w0 (ol_env (final_state r))
      \<and> (case r of Inl _ \<Rightarrow> True | Inr st \<Rightarrow> ol_weight_ok m st))"

text \<open>A sink that accepts every batch, one that raises the same exception on every call,
  one that raises on its first \<open>n\<close> calls and accepts afterwards (its state counts the
  calls), one that rejects the listed objects, and the world before the run.\<close>

definition accepting :: "(nat, 'o) sink_fn" where
  "accepting k batch = (Completed [], k + 1)"

definition raising :: "string \<Rightarrow> (nat, 'o) sink_fn" where
  "raising msg k batch = (Raised msg, k + 1)"

definition raising_first :: "nat \<Rightarrow> string \<Rightarrow> (nat, 'o) sink_fn" where
  "raising_first n msg k batch = (if k < n then Raised msg else Completed [], k + 1)"

definition rejecting :: "'o failed_object list \<Rightarrow> (nat, 'o) sink_fn" where
  "rejecting fs k batch = (Completed fs, k + 1)"

definition fresh_world :: "(nat, 'o, 'e) world" where
  "fresh_world = \<lparr>sink = 0, sink_calls = [], sleeps = [], failure_log = []\<rparr>"

definition nonempty :: "'o list \<Rightarrow> bool" where
  "nonempty batch = (batch \<noteq> [])"

text \<open>Inputs for the scenarios: a text of \<open>n\<close> characters, a paragraph and a chunk whose
  content it is, a document of such paragraphs and a JSONL line of such chunks under the
  ancestors \<open>parent_0\<close> and \<open>parent_1\<close>.\<close>

definition filler :: "nat \<Rightarrow> string" where
  "filler n = replicate n CHR ''x''"

definition para_of :: "nat \<Rightarrow> mx_paragraph" where
  "para_of n = \<lparr>p_content = Some (filler n), p_priorContent = None, p_name = Some ''Art. 1'',
               p_fromArticle = None\<rparr>"

definition doc_of :: "nat list \<Rightarrow> document" where
  "doc_of ns = \<lparr>d_name = Some ''ley'', d_Tipo = Some ''federal'', d_onlyContent = None,
               d_paragraphs_by_bold = Some (map para_of ns)\<rparr>"

definition chunk_of :: "nat \<Rightarrow> chunk" where
  "chunk_of n = \<lparr>c_content = Some (filler n), c_priorContent = None\<rparr>"

definition line_of :: "nat list \<Rightarrow> jsonl_line" where
  "line_of ns = Parsed \<lparr>line_fields = [(''parent_0'', ''Title 1''), (''parent_1'', ''Section 2'')],
                        line_chunks = Some (map chunk_of ns)\<rparr>"

text \<open>The batch item that \<open>process_document\<close> builds for a paragraph (lines 165 to 178).\<close>

definition batch_item_of :: "string \<Rightarrow> string \<Rightarrow> bool \<Rightarrow> string \<Rightarrow> mx_paragraph \<Rightarrow> batch_item" where
  "batch_item_of doc_name doc_tipo only_content fname para =
     (case create_chunk_object para doc_name doc_tipo only_content of
        (ob, art, tk) \<Rightarrow>
          \<lparr>obj = ob, item_article = art, token_count = tk, item_paragraph = para,
           document_name = doc_name, document_tipo = doc_tipo, file_name = fname\<rparr>)"

definition mx_reset :: "'k doc_state \<Rightarrow> 'k doc_state" where
  "mx_reset st = st\<lparr>mx_current_batch := [], mx_current_batch_tokens := 0\<rparr>"

definition mx_bump :: "int \<Rightarrow> int \<Rightarrow> 'k doc_state \<Rightarrow> 'k doc_state" where
  "mx_bump a b st = st\<lparr>chunks_inserted := chunks_inserted st + a,
                       chunks_failed := chunks_failed st + b\<rparr>"

definition raising_from :: "nat \<Rightarrow> string \<Rightarrow> (nat, 'o) sink_fn" where
  "raising_from n msg k batch = (if n \<le> k then Raised msg else Completed [], k + 1)"

definition props_of :: "nat \<Rightarrow> properties" where
  "props_of n = chunk_properties (chunk_of n) ''Section 2'' [''Section 2''] fileName"

definition item_of :: "nat \<Rightarrow> batch_item" where
  "item_of n = batch_item_of ''ley'' ''federal'' False ''f.json'' (para_of n)"

text \<open>The entry that \<open>send_batch\<close> and \<open>send_batch_to_weaviate\<close> write for an object of a
  batch whose insertion raised.\<close>

definition batch_entry :: "string \<Rightarrow> int \<Rightarrow> properties \<Rightarrow> failed_chunk" where
  "batch_entry e batch_number ob =
     \<lparr>fc_error = e, fc_properties = Some ob, fc_batch_number = batch_number\<rparr>"

text \<open>The last batch handed to the sink is one on which the sink raised \<open>msg\<close>, and the
  sink has not been called since.\<close>

abbreviation stopped_at_raise ::
  "('k, properties) sink_fn \<Rightarrow> string \<Rightarrow> 'k loader_state \<Rightarrow> bool" where
  "stopped_at_raise ins msg st \<equiv>
     is_disk_full msg \<and> sink_calls (ol_env st) \<noteq> []
     \<and> (\<exists>k. ins k (last (sink_calls (ol_env st))) = (Raised msg, sink (ol_env st)))"

text \<open>An article is blank when its content is empty once stripped, which is the test
  of step 1. The articles and chunks added since the store \<open>s0\<close>.\<close>

definition blank :: "article_data \<Rightarrow> bool" where
  "blank a = (strip (get_or (full_content a) []) = [])"

definition new_articles :: "('g, 'u) store \<Rightarrow> ('g, 'u) store \<Rightarrow> ('u \<times> article_object) list" where
  "new_articles s0 s = drop (length (articles_added s0)) (articles_added s)"

definition new_chunks ::
  "('g, 'u) store \<Rightarrow> ('g, 'u) store \<Rightarrow> ('u \<times> chunk_object \<times> 'u option) list" where
  "new_chunks s0 s = drop (length (chunks_added s0)) (chunks_added s)"

text \<open>Identifiers drawn from a counter, and the empty store.\<close>

definition counter :: "(nat, nat) uuid_fn" where
  "counter n = (n, n + 1)"

definition empty_store :: "(nat, nat) store" where
  "empty_store = \<lparr>uuid_source = 0, articles_added = [], chunks_added = []\<rparr>"

text \<open>A document of three articles: one with content and a chunk, one whose content is
  a space, with a chunk, and one with content and no chunk. Two articles of the federal
  input, the first with empty content.\<close>

definition example_data :: mx_data where
  "example_data =
     \<lparr>md_document_name = Some ''ley'', md_Tipo = Some ''t'',
      md_articles = Some
        [\<lparr>full_content = Some ''abc'',
          sub_chunks = Some [\<lparr>sc_content = Some ''a'', sc_name = Some ''Art 1'',
                              sc_start_offset = Some 0\<rparr>]\<rparr>,
         \<lparr>full_content = Some '' '',
          sub_chunks = Some [\<lparr>sc_content = Some ''b'', sc_name = Some ''Art 2'',
                              sc_start_offset = Some 5\<rparr>]\<rparr>,
         \<lparr>full_content = Some ''x'', sub_chunks = None\<rparr>]\<rparr>"

definition example_federal :: "federal_article list" where
  "example_federal =
     [\<lparr>fa_full_content = Some [], fa_article_name = Some ''1.1''\<rparr>,
      \<lparr>fa_full_content = Some ''text'', fa_article_name = Some ''1.2''\<rparr>]"

text \<open>The outcome of each call of a trace, replayed on the sink from the state \<open>k\<close>, and
  the state of the sink after the trace. The loader is the only caller of the sink, so
  the replay of the calls of a run gives the outcomes that the run met. An outcome is
  fatal when it is an exception whose message \<open>is_disk_full\<close> recognises.\<close>

fun outcomes :: "('k, 'o) sink_fn \<Rightarrow> 'k \<Rightarrow> 'o list list \<Rightarrow> 'o outcome list" where
  "outcomes ins k [] = []"
| "outcomes ins k (b # bs) = fst (ins k b) # outcomes ins (snd (ins k b)) bs"

fun sink_after :: "('k, 'o) sink_fn \<Rightarrow> 'k \<Rightarrow> 'o list list \<Rightarrow> 'k" where
  "sink_after ins k [] = k"
| "sink_after ins k (b # bs) = sink_after ins (snd (ins k b)) bs"

definition fatal :: "'o outcome \<Rightarrow> bool" where
  "fatal out = (case out of Raised msg \<Rightarrow> is_disk_full msg | Completed fs \<Rightarrow> False)"

definition survived :: "'o outcome \<Rightarrow> bool" where
  "survived out = (\<not> fatal out)"

text \<open>The invariant of a run of the older loader from the world \<open>w0\<close>: the sink is in the
  state that the calls made so far leave it in, and none of them met a fatal outcome;
  or, once the exception of the sink has left a function, the last call met it and no
  earlier one did.\<close>

definition replay_ok :: "('k, properties) sink_fn \<Rightarrow> 'k us_world \<Rightarrow> 'k us_world \<Rightarrow> bool" where
  "replay_ok ins w0 w =
     (\<exists>new. sink_calls w = sink_calls w0 @ new
            \<and> sink w = sink_after ins (sink w0) new
            \<and> list_all survived (outcomes ins (sink w0) new))"

definition replay_stopped ::
  "('k, properties) sink_fn \<Rightarrow> 'k us_world \<Rightarrow> string \<Rightarrow> 'k us_world \<Rightarrow> bool" where
  "replay_stopped ins w0 msg w =
     (\<exists>new b. sink_calls w = sink_calls w0 @ new @ [b]
            \<and> list_all survived (outcomes ins (sink w0) new)
            \<and> fst (ins (sink_after ins (sink w0) new) b) = Raised msg
            \<and> is_disk_full msg)"

definition replay_res ::
  "('k, properties) sink_fn \<Rightarrow> 'k us_world \<Rightarrow> (py_error \<times> 'k loader_state) + 'k loader_state
   \<Rightarrow> bool" where
  "replay_res ins w0 r =
     (case r of
        Inr st \<Rightarrow> replay_ok ins w0 (ol_env st)
      | Inl (e, st) \<Rightarrow>
          (case e of
             SinkError msg \<Rightarrow> replay_stopped ins w0 msg (ol_env st)
           | _ \<Rightarrow> replay_ok ins w0 (ol_env st)))"

section \<open>Properties of the weight function\<close>

text \<open>
  Claim C8. The weight of a text is \<open>max(1, floor(length / 4))\<close>; equal texts have equal
  weights (the weight depends on nothing but the text), and a strictly shorter text never
  has a larger weight than a longer one.
\<close>

theorem approx_tokens_weight:
  "approx_tokens t = max 1 (int (length t) div 4)
   \<and> (t1 = t2 \<longrightarrow> approx_tokens t1 = approx_tokens t2)
   \<and> (length t1 < length t2 \<longrightarrow> approx_tokens t1 \<le> approx_tokens t2)"
proof -
  have mono: "length t1 < length t2 \<longrightarrow> approx_tokens t1 \<le> approx_tokens t2"
  proof
    assume "length t1 < length t2"
    then have "int (length t1) div 4 \<le> int (length t2) div 4"
      by (intro zdiv_mono1) simp_all
    then show "approx_tokens t1 \<le> approx_tokens t2"
      by (simp add: approx_tokens_def)
  qed
  show ?thesis
    using mono by (simp add: approx_tokens_def)
qed

theorem approx_tokens_weight_witness:
  "approx_tokens ''abcdefghij'' = 2
   \<and> length ''abc'' < length ''abcdefghij''
   \<and> approx_tokens ''abc'' \<le> approx_tokens ''abcdefghij''"
  using approx_tokens_weight [of "''abcdefghij''" "''abc''" "''abcdefghij''"]
  by (simp add: approx_tokens_def)

section \<open>The world after a flush\<close>

lemma bulk_insert_world:
  assumes "bulk_insert ins objs w = (out, w1)"
  shows "sink_calls w1 = sink_calls w @ [objs]" "failure_log w1 = failure_log w" "sleeps w1 = sleeps w"
  using assms by (auto simp: bulk_insert_def split: prod.splits)

lemma log_entries_world:
  "failure_log (foldl (\<lambda>w' item. append_entry (f item) w') w items) = failure_log w @ map f items"
  "sink_calls (foldl (\<lambda>w' item. append_entry (f item) w') w items) = sink_calls w"
  "sleeps (foldl (\<lambda>w' item. append_entry (f item) w') w items) = sleeps w"
  "sink (foldl (\<lambda>w' item. append_entry (f item) w') w items) = sink w"
  by (induction items arbitrary: w) (simp_all add: append_entry_def)

lemma sleep_world:
  "sink_calls (sleep n w) = sink_calls w" "failure_log (sleep n w) = failure_log w"
  "sleeps (sleep n w) = sleeps w @ [n]" "sink (sleep n w) = sink w"
  by (simp_all add: sleep_def)

lemma insert_batch_with_retry_unfold:
  "insert_batch_with_retry ins items d w =
     (case bulk_insert ins (map obj items) w of
        (Completed x, w1) \<Rightarrow> ((int (length items), 0), w1)
      | (Raised e0, w1) \<Rightarrow>
         (case bulk_insert ins (map obj items) (sleep d w1) of
            (Completed x, w2) \<Rightarrow> ((int (length items), 0), w2)
          | (Raised e, w2) \<Rightarrow> ((0, int (length items)),
                foldl (\<lambda>w' item. append_entry (make_error_info e item) w') w2 items)))"
  by (simp add: insert_batch_with_retry_def upt_rec split: prod.splits outcome.splits)

lemma insert_batch_with_retry_calls:
  assumes "insert_batch_with_retry ins items d w = (r, w')"
  shows "sink_calls w' = sink_calls w @ [map obj items]
       \<or> sink_calls w' = sink_calls w @ [map obj items, map obj items]"
  using assms unfolding insert_batch_with_retry_unfold
  by (auto split: prod.splits outcome.splits dest!: bulk_insert_world(1) simp: log_entries_world sleep_world)

lemma insert_batch_with_retry_counts:
  assumes "insert_batch_with_retry ins items d w = ((a, b), w')"
  shows "a + b = int (length items)"
  using assms unfolding insert_batch_with_retry_unfold
  by (auto split: prod.splits outcome.splits)

lemma flush_batch_fields:
  "mx_current_batch (flush_batch ins items st) = mx_current_batch st"
  "mx_current_batch_tokens (flush_batch ins items st) = mx_current_batch_tokens st"
  by (simp_all add: flush_batch_def split: prod.splits)

lemma flush_batch_counts:
  "chunks_inserted (flush_batch ins items st) + chunks_failed (flush_batch ins items st)
   = chunks_inserted st + chunks_failed st + int (length items)"
  by (auto simp: flush_batch_def split: prod.splits dest: insert_batch_with_retry_counts)

lemma flush_batch_calls:
  "sink_calls (mx_env (flush_batch ins items st)) = sink_calls (mx_env st) @ [map obj items]
   \<or> sink_calls (mx_env (flush_batch ins items st)) = sink_calls (mx_env st) @ [map obj items, map obj items]"
  by (auto simp: flush_batch_def split: prod.splits dest: insert_batch_with_retry_calls)

lemma calls_ok_refl: "calls_ok P w w"
  by (simp add: calls_ok_def)

lemma calls_ok_since: "calls_ok P w0 w \<Longrightarrow> list_all P (calls_since w0 w)"
  by (auto simp: calls_ok_def calls_since_def)

lemma calls_ok_extend:
  assumes "calls_ok P w0 w" "sink_calls w' = sink_calls w @ extra" "list_all P extra"
  shows "calls_ok P w0 w'"
  using assms by (auto simp: calls_ok_def)

lemma create_chunk_object_tokens:
  "create_chunk_object para dn dt oc = (ob, art, tk) \<Longrightarrow> tk = mx_weight ob"
  by (auto simp: create_chunk_object_def mx_weight_def Let_def)

lemma approx_tokens_pos: "1 \<le> approx_tokens t"
  by (simp add: approx_tokens_def)

lemma within_limit_single: "within_limit wt L [r]"
  by (auto simp: within_limit_def)

lemma flush_calls_ok:
  assumes "calls_ok mx_good w0 (mx_env st)" "mx_good (map obj items)"
  shows "calls_ok mx_good w0 (mx_env (flush_batch ins items st))"
  using flush_batch_calls[of ins items st]
proof
  assume "sink_calls (mx_env (flush_batch ins items st)) = sink_calls (mx_env st) @ [map obj items]"
  then show ?thesis using assms by (intro calls_ok_extend[OF assms(1)]) auto
next
  assume "sink_calls (mx_env (flush_batch ins items st)) = sink_calls (mx_env st) @ [map obj items, map obj items]"
  then show ?thesis using assms by (intro calls_ok_extend[OF assms(1)]) auto
qed

lemma sum_token_weight:
  "\<forall>item \<in> set items. token_count item = mx_weight (obj item)
   \<Longrightarrow> sum_list (map token_count items) = sum_list (map mx_weight (map obj items))"
  by (induction items) auto

lemma mx_step_inv:
  assumes b: "mx_batch_ok st" and c: "calls_ok mx_good w0 (mx_env st)"
  shows "mx_batch_ok (process_paragraph ins dn dt oc fname st para)
       \<and> calls_ok mx_good w0 (mx_env (process_paragraph ins dn dt oc fname st para))"
proof -
  obtain ob art tk where co: "create_chunk_object para dn dt oc = (ob, art, tk)"
    by (cases "create_chunk_object para dn dt oc") auto
  have tk: "tk = mx_weight ob" using co by (rule create_chunk_object_tokens)
  define item where "item = \<lparr>obj = ob, item_article = art, token_count = tk,
                      item_paragraph = para, document_name = dn,
                      document_tipo = dt, file_name = fname\<rparr>"
  have item: "obj item = ob" "token_count item = tk" by (simp_all add: item_def)
  have pend: "mx_current_batch st \<noteq> [] \<Longrightarrow> mx_good (map obj (mx_current_batch st))"
    using b by (simp add: mx_batch_ok_def mx_good_def)
  have single: "mx_good (map obj [item])"
    by (simp add: mx_good_def within_limit_single)
  let ?A = "mx_current_batch st \<noteq> [] \<and> mx_current_batch_tokens st + tk > MX_MAX_BATCH_TOKENS"
  consider (A) ?A | (B) "\<not> ?A" "tk > MX_MAX_BATCH_TOKENS" | (C) "\<not> ?A" "\<not> tk > MX_MAX_BATCH_TOKENS"
    by blast
  then show ?thesis
  proof cases
    case A
    then have eq: "process_paragraph ins dn dt oc fname st para =
        (flush_batch ins (mx_current_batch st) st)\<lparr>mx_current_batch := [item], mx_current_batch_tokens := tk\<rparr>"
      by (simp add: process_paragraph_def co item_def Let_def)
    show ?thesis unfolding eq
      using A flush_calls_ok[OF c pend] tk
      by (simp add: mx_batch_ok_def item within_limit_single)
  next
    case B
    define st1 where "st1 = (if mx_current_batch st \<noteq> []
                              then (flush_batch ins (mx_current_batch st) st)
                                     \<lparr>mx_current_batch := [], mx_current_batch_tokens := 0\<rparr>
                              else st)"
    have eq: "process_paragraph ins dn dt oc fname st para = flush_batch ins [item] st1"
      using B by (auto simp: process_paragraph_def co item_def st1_def Let_def)
    have st1: "mx_current_batch st1 = []" "mx_current_batch_tokens st1 = 0"
      "calls_ok mx_good w0 (mx_env st1)"
      using b c flush_calls_ok[OF c pend] by (auto simp: st1_def mx_batch_ok_def)
    show ?thesis unfolding eq
      using flush_calls_ok[OF st1(3) single] st1
      by (simp add: mx_batch_ok_def flush_batch_fields within_limit_def MX_MAX_BATCH_TOKENS_def)
  next
    case C
    then have eq: "process_paragraph ins dn dt oc fname st para =
        st\<lparr>mx_current_batch := mx_current_batch st @ [item],
           mx_current_batch_tokens := mx_current_batch_tokens st + tk\<rparr>"
      by (auto simp: process_paragraph_def co item_def Let_def)
    have "mx_current_batch_tokens st + tk \<le> MX_MAX_BATCH_TOKENS"
      using C b by (cases "mx_current_batch st = []") (auto simp: mx_batch_ok_def)
    then show ?thesis unfolding eq
      using b c tk by (auto simp: mx_batch_ok_def item within_limit_def sum_token_weight)
  qed
qed

lemma mx_loop_inv:
  assumes "mx_batch_ok st" "calls_ok mx_good w0 (mx_env st)"
  shows "mx_batch_ok (foldl (process_paragraph ins dn dt oc fname) st paras)
       \<and> calls_ok mx_good w0 (mx_env (foldl (process_paragraph ins dn dt oc fname) st paras))"
  using assms
proof (induction paras arbitrary: st)
  case Nil
  then show ?case by simp
next
  case (Cons p ps)
  from mx_step_inv[OF Cons.prems] show ?case
    by (simp add: Cons.IH)
qed

lemma process_document_unfold:
  "process_document ins fname data w =
     mx_result (mx_finish ins
       (foldl (process_paragraph ins (get_or (d_name data) []) (get_or (d_Tipo data) [])
                 (get_or (d_onlyContent data) False) fname)
              (mx_start w) (get_or (d_paragraphs_by_bold data) [])))"
  by (simp add: process_document_def mx_result_def mx_finish_def mx_start_def Let_def)

lemma mx_start_inv: "mx_batch_ok (mx_start w)" "calls_ok mx_good w (mx_env (mx_start w))"
  by (simp_all add: mx_start_def mx_batch_ok_def within_limit_def calls_ok_refl MX_MAX_BATCH_TOKENS_def)

lemma mx_finish_calls_ok:
  assumes "mx_batch_ok st" "calls_ok mx_good w0 (mx_env st)"
  shows "calls_ok mx_good w0 (mx_env (mx_finish ins st))"
proof (cases "mx_current_batch st = []")
  case True
  then show ?thesis using assms by (simp add: mx_finish_def)
next
  case False
  then have "mx_good (map obj (mx_current_batch st))"
    using assms(1) by (simp add: mx_batch_ok_def mx_good_def)
  from flush_calls_ok[OF assms(2) this] False show ?thesis
    by (simp add: mx_finish_def)
qed

lemma process_document_calls_ok:
  "calls_ok mx_good w (snd (process_document ins fname data w))"
proof -
  have "calls_ok mx_good w (mx_env (mx_finish ins (foldl (process_paragraph ins dn dt oc fname) (mx_start w) paras)))"
    for dn dt oc paras
    using mx_loop_inv[OF mx_start_inv] by (intro mx_finish_calls_ok) blast+
  then show ?thesis
    by (simp add: process_document_unfold mx_result_def)
qed

section \<open>Invariants of the loop of batchAddStateCollection.py\<close>

lemma send_batch_empty: "send_batch ins [] st = st"
  by (simp add: send_batch_def)

lemma send_batch_fields:
  "current_batch (send_batch ins b st) = current_batch st"
  "current_batch_tokens (send_batch ins b st) = current_batch_tokens st"
  "total_chunks_processed (send_batch ins b st) = total_chunks_processed st"
  by (simp_all add: send_batch_def Let_def split: prod.splits outcome.splits)

lemma send_batch_counts:
  "total_chunks_imported (send_batch ins b st) + total_failed (send_batch ins b st)
   = total_chunks_imported st + total_failed st + int (length b)"
  by (simp add: send_batch_def Let_def split: prod.splits outcome.splits)

lemma send_batch_calls:
  "b \<noteq> [] \<Longrightarrow> sink_calls (us_env (send_batch ins b st)) = sink_calls (us_env st) @ [b]"
  by (auto simp: send_batch_def Let_def log_entries_world split: prod.splits outcome.splits
           dest: bulk_insert_world(1))

lemma send_calls_ok:
  assumes "calls_ok us_good w0 (us_env st)" "us_good b"
  shows "calls_ok us_good w0 (us_env (send_batch ins b st))"
proof -
  have "b \<noteq> []" using assms(2) by (simp add: us_good_def)
  from send_batch_calls[OF this, of ins st] show ?thesis
    using assms by (intro calls_ok_extend[OF assms(1)]) auto
qed

lemma chunk_properties_weight:
  "us_weight (chunk_properties ch art fa doc) = approx_tokens (get_or (c_content ch) [])"
  by (simp add: us_weight_def chunk_properties_def Let_def)

lemma us_step_inv:
  assumes b: "us_batch_ok st" and c: "calls_ok us_good w0 (us_env st)"
  shows "us_batch_ok (process_chunk ins art fa st ch)
       \<and> calls_ok us_good w0 (us_env (process_chunk ins art fa st ch))"
proof -
  define props where "props = chunk_properties ch art fa fileName"
  define tk where "tk = approx_tokens (get_or (c_content ch) [])"
  define sp where "sp = st\<lparr>total_chunks_processed := total_chunks_processed st + 1\<rparr>"
  have w: "us_weight props = tk"
    by (simp add: props_def tk_def chunk_properties_weight)
  have sp: "current_batch sp = current_batch st" "current_batch_tokens sp = current_batch_tokens st"
     "us_env sp = us_env st" "total_chunks_processed sp = total_chunks_processed st + 1"
     "total_chunks_imported sp = total_chunks_imported st" "total_failed sp = total_failed st"
    by (simp_all add: sp_def)
  have csp: "calls_ok us_good w0 (us_env sp)" using c by (simp add: sp)
  have pend: "current_batch st \<noteq> [] \<Longrightarrow> us_good (current_batch st)"
    using b by (simp add: us_batch_ok_def us_good_def within_limit_def)
  have single: "us_good [props]"
    by (simp add: us_good_def within_limit_single)
  consider (A) "tk > US_MAX_BATCH_TOKENS"
    | (B) "\<not> tk > US_MAX_BATCH_TOKENS" "current_batch_tokens st + tk > US_MAX_BATCH_TOKENS"
    | (C) "\<not> tk > US_MAX_BATCH_TOKENS" "\<not> current_batch_tokens st + tk > US_MAX_BATCH_TOKENS"
    by blast
  then show ?thesis
  proof cases
    case A
    define st1 where "st1 = (if current_batch sp \<noteq> []
                          then (send_batch ins (current_batch sp) sp)
                                 \<lparr>current_batch := [], current_batch_tokens := 0\<rparr>
                          else sp)"
    have eq: "process_chunk ins art fa st ch = send_batch ins [props] st1"
      using A by (simp add: process_chunk_def Let_def props_def[symmetric] tk_def[symmetric]
                    sp_def[symmetric] st1_def)
    have st1: "current_batch st1 = []" "current_batch_tokens st1 = 0"
      "calls_ok us_good w0 (us_env st1)"
      "total_chunks_imported st1 + total_failed st1 = total_chunks_processed st1 - 1"
      using b csp send_calls_ok[OF csp pend] send_batch_counts[of ins "current_batch sp" sp]
      by (auto simp: st1_def us_batch_ok_def sp send_batch_fields)
    show ?thesis unfolding eq
      using send_calls_ok[OF st1(3) single] st1 send_batch_counts[of ins "[props]" st1]
      by (simp add: us_batch_ok_def send_batch_fields US_MAX_BATCH_TOKENS_def)
  next
    case B
    then have eq: "process_chunk ins art fa st ch =
        (send_batch ins (current_batch sp) sp)\<lparr>current_batch := [props], current_batch_tokens := tk\<rparr>"
      by (simp add: process_chunk_def Let_def props_def[symmetric] tk_def[symmetric]
                    sp_def[symmetric] sp)
    have ne: "current_batch st \<noteq> []"
      using B b by (auto simp: us_batch_ok_def)
    show ?thesis unfolding eq
      using B send_calls_ok[OF csp pend[OF ne]] w b send_batch_counts[of ins "current_batch sp" sp]
      by (simp add: us_batch_ok_def sp send_batch_fields)
  next
    case C
    then have eq: "process_chunk ins art fa st ch =
        sp\<lparr>current_batch := current_batch sp @ [props],
           current_batch_tokens := current_batch_tokens sp + tk\<rparr>"
      by (simp add: process_chunk_def Let_def props_def[symmetric] tk_def[symmetric]
                    sp_def[symmetric] sp)
    show ?thesis unfolding eq
      using C b c w by (simp add: us_batch_ok_def sp)
  qed
qed

lemma us_chunks_inv:
  assumes "us_batch_ok st" "calls_ok us_good w0 (us_env st)"
  shows "us_batch_ok (foldl (process_chunk ins art fa) st chs)
       \<and> calls_ok us_good w0 (us_env (foldl (process_chunk ins art fa) st chs))"
  using assms
proof (induction chs arbitrary: st)
  case Nil
  then show ?case by simp
next
  case (Cons c cs)
  from us_step_inv[OF Cons.prems] show ?case
    by (simp add: Cons.IH)
qed

lemma process_chunk_processed:
  "total_chunks_processed (process_chunk ins art fa st ch) = total_chunks_processed st + 1"
  by (simp add: process_chunk_def Let_def send_batch_fields)

lemma process_chunks_processed:
  "total_chunks_processed (foldl (process_chunk ins art fa) st chs)
   = total_chunks_processed st + int (length chs)"
  by (induction chs arbitrary: st) (simp_all add: process_chunk_processed)

lemma us_line_inv:
  assumes "us_batch_ok st" "calls_ok us_good w0 (us_env st)"
  shows "us_batch_ok (final_state (process_line ins st line))
       \<and> calls_ok us_good w0 (us_env (final_state (process_line ins st line)))"
  using assms us_chunks_inv[OF assms]
  by (auto simp: process_line_def final_state_def split: jsonl_line.splits sum.splits)

lemma us_lines_inv:
  assumes "us_batch_ok st" "calls_ok us_good w0 (us_env st)"
  shows "us_batch_ok (final_state (process_lines ins st lines))
       \<and> calls_ok us_good w0 (us_env (final_state (process_lines ins st lines)))"
  using assms
proof (induction lines arbitrary: st)
  case Nil
  then show ?case by (simp add: final_state_def)
next
  case (Cons l ls)
  show ?case
  proof (cases "process_line ins st l")
    case (Inl err)
    then show ?thesis using us_line_inv[OF Cons.prems, of ins l]
      by simp
  next
    case (Inr st')
    then have "us_batch_ok st'" "calls_ok us_good w0 (us_env st')"
      using us_line_inv[OF Cons.prems, of ins l] by (simp_all add: final_state_def)
    from Cons.IH[OF this] show ?thesis using Inr by simp
  qed
qed

lemma us_lines_processed:
  "process_lines ins st lines = Inr st'
   \<Longrightarrow> total_chunks_processed st' = total_chunks_processed st + int (chunk_total lines)"
proof (induction lines arbitrary: st)
  case Nil
  then show ?case by (simp add: chunk_total_def)
next
  case (Cons l ls)
  then obtain st1 where l: "process_line ins st l = Inr st1" and r: "process_lines ins st1 ls = Inr st'"
    by (auto split: sum.splits)
  have "total_chunks_processed st1 = total_chunks_processed st
        + int (case l of Malformed \<Rightarrow> 0 | Parsed data \<Rightarrow> length (get_or (line_chunks data) []))"
    using l by (auto simp: process_line_def process_chunks_processed split: jsonl_line.splits sum.splits)
  with Cons.IH[OF r] show ?case by (simp add: chunk_total_def)
qed

lemma us_initial_inv: "us_batch_ok (us_initial w)" "calls_ok us_good w (us_env (us_initial w))"
  by (simp_all add: us_initial_def us_batch_ok_def calls_ok_refl US_MAX_BATCH_TOKENS_def)

section \<open>Invariants of the older JSONL loader\<close>

lemma log_rejected_fold:
  "foldl (\<lambda>s fo. s\<lparr>failed := failed s + 1,
                    ol_env := append_entry \<lparr>fc_error = message fo, fc_properties = fo_object fo,
                               fc_batch_number = n\<rparr> (ol_env s)\<rparr>) st fs
   = st\<lparr>failed := failed st + int (length fs),
        ol_env := (ol_env st)\<lparr>failure_log := failure_log (ol_env st) @ map (rejected_entry n) fs\<rparr>\<rparr>"
  by (induction fs arbitrary: st) (simp_all add: append_entry_def rejected_entry_def)

lemma send_to_weaviate_empty: "send_batch_to_weaviate ins [] n st = Inr st"
  by (simp add: send_batch_to_weaviate_def)

lemma send_to_weaviate_calls:
  "b \<noteq> [] \<Longrightarrow>
   sink_calls (ol_env (final_state (send_batch_to_weaviate ins b n st))) = sink_calls (ol_env st) @ [b]"
  by (auto simp: send_batch_to_weaviate_def Let_def final_state_def log_rejected_fold log_entries_world
           split: prod.splits outcome.splits dest: bulk_insert_world(1))

lemma send_to_weaviate_fields:
  assumes "send_batch_to_weaviate ins b n st = Inr st'"
  shows "objects st' = objects st" "tokens st' = tokens st" "processed st' = processed st"
        "batches st' = batches st"
        "imported st' + failed st' = imported st + failed st + int (length b)"
  using assms
  by (auto simp: send_batch_to_weaviate_def Let_def log_rejected_fold
           split: prod.splits outcome.splits if_splits)

lemma send_to_weaviate_calls_ok:
  assumes "calls_ok (ol_good m) w0 (ol_env st)" "ol_good m b"
  shows "calls_ok (ol_good m) w0 (ol_env (final_state (send_batch_to_weaviate ins b n st)))"
proof -
  have "b \<noteq> []" using assms(2) by (simp add: ol_good_def)
  from send_to_weaviate_calls[OF this, of ins n st] show ?thesis
    using assms by (intro calls_ok_extend[OF assms(1)]) auto
qed

lemma send_pending_unfold:
  "send_pending ins st =
      (case send_batch_to_weaviate ins (objects st) (batches st + 1) (st\<lparr>batches := batches st + 1\<rparr>) of
           Inl err \<Rightarrow> Inl err
         | Inr st2 \<Rightarrow> Inr (st2\<lparr>objects := [], tokens := 0\<rparr>))"
  by (simp add: send_pending_def Let_def)

lemma send_pending_calls_ok:
  assumes b: "ol_weight_ok m st" and c: "calls_ok (ol_good m) w0 (ol_env st)" and ne: "objects st \<noteq> []"
  shows "calls_ok (ol_good m) w0 (ol_env (final_state (send_pending ins st)))"
proof -
  define st1 where "st1 = st\<lparr>batches := batches st + 1\<rparr>"
  have g: "ol_good m (objects st)"
    using b ne by (auto simp: ol_weight_ok_def ol_good_def within_limit_def)
  have c1: "calls_ok (ol_good m) w0 (ol_env st1)" using c by (simp add: st1_def)
  show ?thesis
    using send_to_weaviate_calls_ok[OF c1 g, of ins "batches st + 1"]
    by (auto simp: send_pending_unfold st1_def final_state_def split: sum.splits)
qed

lemma send_pending_fields:
  assumes "send_pending ins st = Inr st'"
  shows "objects st' = []" "tokens st' = 0" "processed st' = processed st"
        "imported st' + failed st' = imported st + failed st + int (length (objects st))"
proof -
  obtain st2 where s2: "send_batch_to_weaviate ins (objects st) (batches st + 1)
                          (st\<lparr>batches := batches st + 1\<rparr>) = Inr st2"
      and st': "st' = st2\<lparr>objects := [], tokens := 0\<rparr>"
    using assms unfolding send_pending_unfold by (simp split: sum.splits)
  note f = send_to_weaviate_fields[OF s2]
  show "objects st' = []" "tokens st' = 0" by (simp_all add: st')
  show "processed st' = processed st" using f(3) by (simp add: st')
  show "imported st' + failed st' = imported st + failed st + int (length (objects st))"
    using f(5) by (simp add: st')
qed

lemma handle_oversized_calls_ok:
  assumes "calls_ok (ol_good m) w0 (ol_env st)"
  shows "calls_ok (ol_good m) w0 (ol_env (final_state (handle_oversized_chunk ins props st)))"
proof -
  have single: "ol_good m [props]"
    by (simp add: ol_good_def within_limit_single)
  have "calls_ok (ol_good m) w0 (ol_env (st\<lparr>batches := batches st + 1\<rparr>))"
    using assms by simp
  from send_to_weaviate_calls_ok[OF this single] show ?thesis
    by (simp add: handle_oversized_chunk_def Let_def)
qed

lemma handle_oversized_fields:
  assumes "handle_oversized_chunk ins props st = Inr st'"
  shows "objects st' = objects st" "tokens st' = tokens st" "processed st' = processed st"
        "imported st' + failed st' = imported st + failed st + 1"
proof -
  have s2: "send_batch_to_weaviate ins [props] (batches st + 1)
              (st\<lparr>batches := batches st + 1\<rparr>) = Inr st'"
    using assms by (simp add: handle_oversized_chunk_def Let_def)
  note f = send_to_weaviate_fields[OF s2]
  show "objects st' = objects st" using f(1) by simp
  show "tokens st' = tokens st" using f(2) by simp
  show "processed st' = processed st" using f(3) by simp
  show "imported st' + failed st' = imported st + failed st + 1" using f(5) by simp
qed

lemma process_line_chunk_unfold:
  "process_line_chunk ins art fa doc m st ch =
      (let props = chunk_properties ch art fa doc; tk = us_weight props;
           sp = st\<lparr>processed := processed st + 1\<rparr>
       in if tk > m
         then (case (if objects st \<noteq> [] then send_pending ins sp else Inr sp) of
                 Inl err \<Rightarrow> Inl err
               | Inr st1 \<Rightarrow> handle_oversized_chunk ins props st1)
         else (case (if tokens st + tk > m then send_pending ins sp else Inr sp) of
                 Inl err \<Rightarrow> Inl err
               | Inr st1 \<Rightarrow> Inr (st1\<lparr>objects := objects st1 @ [props],
                                     tokens := tokens st1 + tk\<rparr>)))"
  by (simp add: process_line_chunk_def Let_def us_weight_def should_send_batch_def)

lemma ol_step_inv:
  assumes b: "ol_weight_ok m st" and c: "calls_ok (ol_good m) w0 (ol_env st)"
  shows "ol_res_ok m w0 (process_line_chunk ins art fa doc m st ch)"
proof -
  define props where "props = chunk_properties ch art fa doc"
  define tk where "tk = us_weight props"
  define sp where "sp = st\<lparr>processed := processed st + 1\<rparr>"
  have sp: "objects sp = objects st" "tokens sp = tokens st" "ol_env sp = ol_env st"
    by (simp_all add: sp_def)
  have csp: "calls_ok (ol_good m) w0 (ol_env sp)" using c by (simp add: sp)
  have bsp: "ol_weight_ok m sp" using b by (auto simp: ol_weight_ok_def sp)
  have body: "process_line_chunk ins art fa doc m st ch =
      (if tk > m
         then (case (if objects st \<noteq> [] then send_pending ins sp else Inr sp) of
                 Inl err \<Rightarrow> Inl err
               | Inr st1 \<Rightarrow> handle_oversized_chunk ins props st1)
         else (case (if tokens st + tk > m then send_pending ins sp else Inr sp) of
                 Inl err \<Rightarrow> Inl err
               | Inr st1 \<Rightarrow> Inr (st1\<lparr>objects := objects st1 @ [props],
                                     tokens := tokens st1 + tk\<rparr>)))"
    unfolding props_def tk_def sp_def process_line_chunk_unfold Let_def by simp
  have pend: "objects st \<noteq> [] \<Longrightarrow>
       calls_ok (ol_good m) w0 (ol_env (final_state (send_pending ins sp)))"
    using send_pending_calls_ok[OF bsp csp] by (simp add: sp)
  show ?thesis
  proof (cases "tk > m")
    case True
    show ?thesis
    proof (cases "if objects st \<noteq> [] then send_pending ins sp else Inr sp")
      case (Inl err)
      then show ?thesis using True pend
        by (auto simp: body ol_res_ok_def split: if_splits)
    next
      case (Inr st1)
      have c1: "calls_ok (ol_good m) w0 (ol_env st1)"
        using Inr pend csp by (auto simp: final_state_def split: if_splits)
      have f1: "objects st1 = [] \<and> tokens st1 = 0"
      proof (cases "objects st = []")
        case True
        then have "st1 = sp" using Inr by simp
        then show ?thesis using True b by (simp add: sp ol_weight_ok_def)
      next
        case False
        then have "send_pending ins sp = Inr st1" using Inr by simp
        from send_pending_fields[OF this] show ?thesis by simp
      qed
      have "ol_res_ok m w0 (handle_oversized_chunk ins props st1)"
        using handle_oversized_calls_ok[OF c1, of ins props]
              handle_oversized_fields[of ins props st1] f1
        by (auto simp: ol_res_ok_def ol_weight_ok_def split: sum.splits)
      then show ?thesis using True Inr by (simp add: body)
    qed
  next
    case False
    show ?thesis
    proof (cases "tokens st + tk > m")
      case True
      have ne: "objects st \<noteq> []"
        using True False b by (auto simp: ol_weight_ok_def)
      show ?thesis
      proof (cases "send_pending ins sp")
        case (Inl err)
        then show ?thesis using True False pend[OF ne]
          by (simp add: body ol_res_ok_def)
      next
        case (Inr st1)
        then show ?thesis using True False pend[OF ne] send_pending_fields[OF Inr]
          by (simp add: body ol_res_ok_def final_state_def ol_weight_ok_def tk_def)
      qed
    next
      case False2: False
      then show ?thesis using False b csp
        by (simp add: body ol_res_ok_def final_state_def ol_weight_ok_def sp tk_def)
    qed
  qed
qed

lemma ol_step_count:
  assumes ok: "ol_count_ok st" and r: "process_line_chunk ins art fa doc m st ch = Inr st'"
  shows "ol_count_ok st' \<and> processed st' = processed st + 1"
proof -
  define props where "props = chunk_properties ch art fa doc"
  define tk where "tk = us_weight props"
  define sp where "sp = st\<lparr>processed := processed st + 1\<rparr>"
  have sp: "objects sp = objects st" "tokens sp = tokens st" "imported sp = imported st"
     "failed sp = failed st" "processed sp = processed st + 1"
    by (simp_all add: sp_def)
  have okp: "imported sp + failed sp + int (length (objects sp)) = processed sp - 1"
    using ok by (simp add: ol_count_ok_def sp)
  have body: "process_line_chunk ins art fa doc m st ch =
      (if tk > m
         then (case (if objects st \<noteq> [] then send_pending ins sp else Inr sp) of
                 Inl err \<Rightarrow> Inl err
               | Inr st1 \<Rightarrow> handle_oversized_chunk ins props st1)
         else (case (if tokens st + tk > m then send_pending ins sp else Inr sp) of
                 Inl err \<Rightarrow> Inl err
               | Inr st1 \<Rightarrow> Inr (st1\<lparr>objects := objects st1 @ [props],
                                     tokens := tokens st1 + tk\<rparr>)))"
    unfolding props_def tk_def sp_def process_line_chunk_unfold Let_def by simp
  have pending: "imported s1 + failed s1 + int (length (objects s1)) = processed s1 - 1
                 \<and> processed s1 = processed st + 1"
    if "(if c then send_pending ins sp else Inr sp) = Inr s1" for c s1
  proof (cases c)
    case True
    then have "send_pending ins sp = Inr s1" using that by simp
    from send_pending_fields[OF this] okp show ?thesis by (simp add: sp)
  next
    case False
    then have "s1 = sp" using that by simp
    then show ?thesis using okp by (simp add: sp)
  qed
  show ?thesis
  proof (cases "tk > m")
    case True
    then obtain s1 where s1: "(if objects st \<noteq> [] then send_pending ins sp else Inr sp) = Inr s1"
        and h: "handle_oversized_chunk ins props s1 = Inr st'"
      using r by (auto simp: body split: sum.splits)
    from pending[OF s1] handle_oversized_fields[OF h] show ?thesis
      by (simp add: ol_count_ok_def)
  next
    case False
    then obtain s1 where s1: "(if tokens st + tk > m then send_pending ins sp else Inr sp) = Inr s1"
        and h: "st' = s1\<lparr>objects := objects s1 @ [props], tokens := tokens s1 + tk\<rparr>"
      using r by (auto simp: body split: sum.splits)
    from pending[OF s1] show ?thesis
      by (simp add: ol_count_ok_def h)
  qed
qed

lemma ol_res_ok_Inr:
  "ol_res_ok m w0 (Inr st) = (ol_weight_ok m st \<and> calls_ok (ol_good m) w0 (ol_env st))"
  by (auto simp: ol_res_ok_def final_state_def)

lemma ol_chunks_inv:
  assumes "ol_weight_ok m st" "calls_ok (ol_good m) w0 (ol_env st)"
  shows "ol_res_ok m w0 (process_line_chunks ins art fa doc m st chs)"
  using assms
proof (induction chs arbitrary: st)
  case Nil
  then show ?case by (simp add: ol_res_ok_Inr)
next
  case (Cons c cs)
  have step: "ol_res_ok m w0 (process_line_chunk ins art fa doc m st c)"
    using Cons.prems by (rule ol_step_inv)
  show ?case
  proof (cases "process_line_chunk ins art fa doc m st c")
    case (Inl err)
    then show ?thesis using step by simp
  next
    case (Inr b)
    then have "ol_weight_ok m b" "calls_ok (ol_good m) w0 (ol_env b)"
      using step by (simp_all add: ol_res_ok_Inr)
    from Cons.IH[OF this] show ?thesis using Inr by simp
  qed
qed

lemma ol_chunks_count:
  assumes "ol_count_ok st" "process_line_chunks ins art fa doc m st chs = Inr st'"
  shows "ol_count_ok st' \<and> processed st' = processed st + int (length chs)"
  using assms
proof (induction chs arbitrary: st)
  case Nil
  then show ?case by simp
next
  case (Cons c cs)
  then obtain s1 where s1: "process_line_chunk ins art fa doc m st c = Inr s1"
      and r: "process_line_chunks ins art fa doc m s1 cs = Inr st'"
    by (auto split: sum.splits)
  from ol_step_count[OF Cons.prems(1) s1] Cons.IH[OF _ r] show ?case by simp
qed

lemma ol_line_inv:
  assumes "ol_weight_ok m st" "calls_ok (ol_good m) w0 (ol_env st)"
  shows "ol_res_ok m w0 (process_chunks_from_line ins data doc m st)"
proof (cases "extract_parent_info (line_fields data)")
  case (Inl e)
  then show ?thesis using assms
    by (simp add: process_chunks_from_line_def ol_res_ok_def final_state_def)
next
  case (Inr p)
  obtain art fa where p: "p = (art, fa)" by (cases p)
  show ?thesis using Inr ol_chunks_inv[OF assms]
    by (simp add: process_chunks_from_line_def p)
qed

lemma ol_lines_inv:
  assumes "ol_weight_ok m st" "calls_ok (ol_good m) w0 (ol_env st)"
  shows "ol_res_ok m w0 (process_jsonl_lines ins doc m st lines)"
  using assms
proof (induction lines arbitrary: st)
  case Nil
  then show ?case by (simp add: ol_res_ok_Inr)
next
  case (Cons l ls)
  show ?case
  proof (cases l)
    case Malformed
    then show ?thesis using Cons by simp
  next
    case (Parsed data)
    have step: "ol_res_ok m w0 (process_chunks_from_line ins data doc m st)"
      using Cons.prems by (rule ol_line_inv)
    show ?thesis
    proof (cases "process_chunks_from_line ins data doc m st")
      case (Inl err)
      then show ?thesis using step Parsed by simp
    next
      case (Inr b)
      then have "ol_weight_ok m b" "calls_ok (ol_good m) w0 (ol_env b)"
        using step by (simp_all add: ol_res_ok_Inr)
      from Cons.IH[OF this] show ?thesis using Inr Parsed by simp
    qed
  qed
qed

lemma ol_lines_count:
  assumes "ol_count_ok st" "process_jsonl_lines ins doc m st lines = Inr st'"
  shows "ol_count_ok st' \<and> processed st' = processed st + int (chunk_total lines)"
  using assms
proof (induction lines arbitrary: st)
  case Nil
  then show ?case by (simp add: chunk_total_def)
next
  case (Cons l ls)
  show ?case
  proof (cases l)
    case Malformed
    then show ?thesis using Cons by (simp add: chunk_total_def)
  next
    case (Parsed data)
    then obtain s1 where s1: "process_chunks_from_line ins data doc m st = Inr s1"
        and r: "process_jsonl_lines ins doc m s1 ls = Inr st'"
      using Cons.prems(2) by (auto split: sum.splits)
    have "ol_count_ok s1 \<and> processed s1 = processed st + int (length (get_or (line_chunks data) []))"
      using s1 ol_chunks_count[OF Cons.prems(1)]
      by (auto simp: process_chunks_from_line_def split: sum.splits)
    with Cons.IH[OF _ r] show ?thesis using Parsed by (simp add: chunk_total_def)
  qed
qed

lemma loader_initial_inv:
  "ol_weight_ok m (loader_initial w)" "ol_count_ok (loader_initial w)"
  "calls_ok (ol_good m) w (ol_env (loader_initial w))"
  by (simp_all add: loader_initial_def ol_weight_ok_def ol_count_ok_def calls_ok_refl)

lemma process_jsonl_file_calls_ok:
  "calls_ok (ol_good m) w (ol_env (final_state (process_jsonl_file ins lines doc m w)))"
proof (cases "process_jsonl_lines ins doc m (loader_initial w) lines")
  case (Inl err)
  then show ?thesis
    using ol_lines_inv[OF loader_initial_inv(1)[of m w] loader_initial_inv(3)[of m w], where ins=ins and doc=doc and lines=lines]
    by (simp add: process_jsonl_file_def ol_res_ok_def)
next
  case (Inr st)
  then have w: "ol_weight_ok m st" and c: "calls_ok (ol_good m) w (ol_env st)"
    using ol_lines_inv[OF loader_initial_inv(1)[of m w] loader_initial_inv(3)[of m w], where ins=ins and doc=doc and lines=lines]
    by (simp_all add: ol_res_ok_def final_state_def)
  show ?thesis
  proof (cases "objects st = []")
    case True
    then show ?thesis using Inr c by (simp add: process_jsonl_file_def final_state_def)
  next
    case False
    then have g: "ol_good m (objects st)"
      using w by (auto simp: ol_weight_ok_def ol_good_def within_limit_def)
    have "calls_ok (ol_good m) w (ol_env (st\<lparr>batches := batches st + 1\<rparr>))" using c by simp
    from send_to_weaviate_calls_ok[OF this g] show ?thesis
      using Inr False by (simp add: process_jsonl_file_def Let_def)
  qed
qed

lemma process_jsonl_file_count:
  assumes "process_jsonl_file ins lines doc m w = Inr st'"
  shows "imported st' + failed st' = processed st' \<and> processed st' = int (chunk_total lines)"
proof -
  obtain st where l: "process_jsonl_lines ins doc m (loader_initial w) lines = Inr st"
    using assms by (auto simp: process_jsonl_file_def split: sum.splits)
  from ol_lines_count[OF loader_initial_inv(2) l]
  have c: "imported st + failed st + int (length (objects st)) = processed st"
       "processed st = int (chunk_total lines)"
    by (simp_all add: ol_count_ok_def loader_initial_def)
  show ?thesis
  proof (cases "objects st = []")
    case True
    then show ?thesis using assms l c by (simp add: process_jsonl_file_def)
  next
    case False
    then have "send_batch_to_weaviate ins (objects st) (batches st + 1) (st\<lparr>batches := batches st + 1\<rparr>) = Inr st'"
      using assms l by (simp add: process_jsonl_file_def Let_def)
    from send_to_weaviate_fields[OF this] c show ?thesis by simp
  qed
qed

section \<open>Whole runs\<close>

lemma calls_ok_mono:
  assumes "calls_ok P w0 w" "\<And>b. P b \<Longrightarrow> Q b"
  shows "list_all Q (calls_since w0 w)"
  using assms by (auto simp: calls_ok_def calls_since_def list_all_iff)

lemma batch_add_state_collection_calls_ok:
  "calls_ok us_good w (us_env (final_state (batch_add_state_collection ins lines w)))"
proof -
  note inv = us_lines_inv[OF us_initial_inv(1)[of w] us_initial_inv(2)[of w], where ins=ins and lines=lines]
  show ?thesis
  proof (cases "process_lines ins (us_initial w) lines")
    case (Inl err)
    then show ?thesis using inv by (simp add: batch_add_state_collection_def)
  next
    case (Inr st)
    then have b: "us_batch_ok st" and c: "calls_ok us_good w (us_env st)"
      using inv by (simp_all add: final_state_def)
    show ?thesis
    proof (cases "current_batch st = []")
      case True
      then show ?thesis using Inr c by (simp add: batch_add_state_collection_def final_state_def)
    next
      case False
      then have "us_good (current_batch st)"
        using b by (simp add: us_batch_ok_def us_good_def within_limit_def)
      from send_calls_ok[OF c this] show ?thesis
        using Inr False by (simp add: batch_add_state_collection_def final_state_def)
    qed
  qed
qed

lemma batch_add_state_collection_count:
  assumes "batch_add_state_collection ins lines w = Inr st'"
  shows "total_chunks_imported st' + total_failed st' = total_chunks_processed st'
       \<and> total_chunks_processed st' = int (chunk_total lines)"
proof -
  obtain st where l: "process_lines ins (us_initial w) lines = Inr st"
    using assms by (auto simp: batch_add_state_collection_def split: sum.splits)
  have b: "us_batch_ok st"
    using us_lines_inv[OF us_initial_inv(1)[of w] us_initial_inv(2)[of w], where ins=ins and lines=lines] l
    by (simp add: final_state_def)
  have p: "total_chunks_processed st = int (chunk_total lines)"
    using us_lines_processed[OF l] by (simp add: us_initial_def)
  have st': "st' = (if current_batch st \<noteq> [] then send_batch ins (current_batch st) st else st)"
    using assms l by (simp add: batch_add_state_collection_def)
  show ?thesis
  proof (cases "current_batch st = []")
    case True
    then show ?thesis using b p by (simp add: st' us_batch_ok_def)
  next
    case False
    then show ?thesis using b p send_batch_counts[of ins "current_batch st" st]
      by (simp add: st' us_batch_ok_def send_batch_fields)
  qed
qed

lemma mx_step_count:
  "chunks_inserted (process_paragraph ins dn dt oc fname st para)
   + chunks_failed (process_paragraph ins dn dt oc fname st para)
   + int (length (mx_current_batch (process_paragraph ins dn dt oc fname st para)))
   = chunks_inserted st + chunks_failed st + int (length (mx_current_batch st)) + 1"
proof -
  obtain ob art tk where co: "create_chunk_object para dn dt oc = (ob, art, tk)"
    by (cases "create_chunk_object para dn dt oc") auto
  show ?thesis
    using flush_batch_counts[of ins "mx_current_batch st" st]
          flush_batch_counts[of ins "[x]" "(flush_batch ins (mx_current_batch st) st)
                                     \<lparr>mx_current_batch := [], mx_current_batch_tokens := 0\<rparr>" for x]
          flush_batch_counts[of ins "[x]" st for x]
    by (simp add: process_paragraph_def co Let_def flush_batch_fields)
qed

lemma mx_loop_count:
  "chunks_inserted (foldl (process_paragraph ins dn dt oc fname) st paras)
   + chunks_failed (foldl (process_paragraph ins dn dt oc fname) st paras)
   + int (length (mx_current_batch (foldl (process_paragraph ins dn dt oc fname) st paras)))
   = chunks_inserted st + chunks_failed st + int (length (mx_current_batch st)) + int (length paras)"
proof (induction paras arbitrary: st)
  case Nil
  then show ?case by simp
next
  case (Cons p ps)
  show ?case using Cons.IH[of "process_paragraph ins dn dt oc fname st p"] mx_step_count[of ins dn dt oc fname st p]
    by simp
qed

lemma mx_finish_count:
  "chunks_inserted (mx_finish ins st) + chunks_failed (mx_finish ins st)
   = chunks_inserted st + chunks_failed st + int (length (mx_current_batch st))"
  using flush_batch_counts[of ins "mx_current_batch st" st]
  by (simp add: mx_finish_def)

lemma process_document_count:
  "fst (fst (process_document ins fname data w)) + snd (fst (process_document ins fname data w))
   = int (length (get_or (d_paragraphs_by_bold data) []))"
  using mx_loop_count[of ins _ _ _ fname "mx_start w" "get_or (d_paragraphs_by_bold data) []"]
  by (simp add: process_document_unfold mx_result_def mx_finish_count) (simp add: mx_start_def)

section \<open>Claims about the batches and the counters\<close>

lemma approx_tokens_filler: "approx_tokens (filler n) = max 1 (int n div 4)"
  by (simp add: approx_tokens_def filler_def)

lemma is_disk_full_read_only: "is_disk_full ''Store is READ-ONLY''"
  by code_simp

lemma not_disk_full_timeout: "\<not> is_disk_full ''timeout''"
  by code_simp

lemma extract_parent_info_line_of:
  "extract_parent_info [(''parent_0'', ''Title 1''), (''parent_1'', ''Section 2'')]
   = Inr (''Section 2'', [''Section 2''])"
  by (simp add: extract_parent_info_def startswith_def parent_number_def py_int_def strip_def
        isspace_def parse_digits_def is_digit_def digits_value_def get_or_def Let_def)

lemmas mx_eval = process_document_def doc_of_def para_of_def get_or_def Let_def process_paragraph_def
     create_chunk_object_def MX_MAX_BATCH_TOKENS_def flush_batch_def insert_batch_with_retry_unfold
     bulk_insert_def accepting_def fresh_world_def calls_since_def mx_weight_def approx_tokens_filler

lemmas us_eval = batch_add_state_collection_def line_of_def chunk_of_def process_line_def
     extract_parent_info_line_of us_initial_def process_chunk_def chunk_properties_def get_or_def
     Let_def US_MAX_BATCH_TOKENS_def send_batch_def bulk_insert_def accepting_def fresh_world_def
     calls_since_def us_weight_def approx_tokens_filler final_state_def

lemmas ol_eval = process_jsonl_file_def line_of_def chunk_of_def process_chunks_from_line_def
     extract_parent_info_line_of loader_initial_def process_line_chunk_def chunk_properties_def
     get_or_def Let_def send_batch_to_weaviate_def send_pending_def handle_oversized_chunk_def
     should_send_batch_def bulk_insert_def accepting_def fresh_world_def
     calls_since_def us_weight_def approx_tokens_filler final_state_def

text \<open>
  Claim C1. Whatever the input and however the sink answers, every batch handed to the
  sink has an accumulated weight of at most the limit, unless it is a singleton holding
  one record whose own weight exceeds the limit. This holds for the script
  \<open>batchAddStateCollection.py\<close> (also when a line aborts it), for \<open>process_document\<close> of
  \<open>mx/addToCollection.py\<close>, and for \<open>process_jsonl_file\<close> of the older loader with any
  limit \<open>m\<close>.
\<close>

theorem flushed_batches_within_limit:
  "list_all (within_limit us_weight US_MAX_BATCH_TOKENS)
     (calls_since w (us_env (final_state (batch_add_state_collection ins lines w))))
   \<and> list_all (within_limit mx_weight MX_MAX_BATCH_TOKENS)
     (calls_since w' (snd (process_document ins' fname data w')))
   \<and> list_all (within_limit us_weight m)
     (calls_since w (ol_env (final_state (process_jsonl_file ins lines doc m w))))"
proof (intro conjI)
  show "list_all (within_limit us_weight US_MAX_BATCH_TOKENS)
     (calls_since w (us_env (final_state (batch_add_state_collection ins lines w))))"
    by (rule calls_ok_mono[OF batch_add_state_collection_calls_ok]) (simp add: us_good_def)
  show "list_all (within_limit mx_weight MX_MAX_BATCH_TOKENS)
     (calls_since w' (snd (process_document ins' fname data w')))"
    by (rule calls_ok_mono[OF process_document_calls_ok]) (simp add: mx_good_def)
  show "list_all (within_limit us_weight m)
     (calls_since w (ol_env (final_state (process_jsonl_file ins lines doc m w))))"
    by (rule calls_ok_mono[OF process_jsonl_file_calls_ok]) (simp add: ol_good_def)
qed

text \<open>The scenario of the specification: weights 40000, 50000 and 50000 under the limit
  120000 give the batch of the first two records (weight 90000), then the third alone.\<close>

theorem flushed_batches_within_limit_witness:
  "map (map mx_weight) (calls_since fresh_world
      (snd (process_document accepting ''f.json'' (doc_of [160000, 200000, 200000]) fresh_world)))
     = [[40000, 50000], [50000]]
   \<and> list_all (within_limit mx_weight MX_MAX_BATCH_TOKENS) (calls_since fresh_world
      (snd (process_document accepting ''f.json'' (doc_of [160000, 200000, 200000]) fresh_world)))
   \<and> map (map us_weight) (calls_since fresh_world (us_env (final_state
      (batch_add_state_collection accepting
         [line_of [160000, 400000], Malformed, line_of [600000, 8]] fresh_world))))
     = [[40000], [100000], [150000], [2]]"
  using flushed_batches_within_limit
          [where w = fresh_world and ins = accepting
             and lines = "[line_of [160000, 400000], Malformed, line_of [600000, 8]]"
             and w' = fresh_world and ins' = accepting and fname = "''f.json''"
             and data = "doc_of [160000, 200000, 200000]"]
  by (simp add: mx_eval) (simp add: us_eval)

text \<open>
  Claim C9. No batch handed to the sink is empty, in any of the three loaders and for
  every input and sink; the two flush functions that test their argument return the state
  unchanged, without a call of the sink, when the list is empty.
\<close>

theorem sink_never_called_with_empty_batch:
  "list_all nonempty
     (calls_since w (us_env (final_state (batch_add_state_collection ins lines w))))
   \<and> list_all nonempty
     (calls_since w (ol_env (final_state (process_jsonl_file ins lines doc m w))))
   \<and> list_all nonempty (calls_since w' (snd (process_document ins' fname data w')))
   \<and> send_batch ins [] st = st
   \<and> send_batch_to_weaviate ins [] n st2 = Inr st2"
proof (intro conjI)
  show "list_all nonempty
     (calls_since w (us_env (final_state (batch_add_state_collection ins lines w))))"
    by (rule calls_ok_mono[OF batch_add_state_collection_calls_ok]) (simp add: us_good_def nonempty_def)
  show "list_all nonempty
     (calls_since w (ol_env (final_state (process_jsonl_file ins lines doc m w))))"
    by (rule calls_ok_mono[OF process_jsonl_file_calls_ok]) (simp add: ol_good_def nonempty_def)
  show "list_all nonempty (calls_since w' (snd (process_document ins' fname data w')))"
    by (rule calls_ok_mono[OF process_document_calls_ok]) (simp add: mx_good_def nonempty_def)
  show "send_batch ins [] st = st" by (rule send_batch_empty)
  show "send_batch_to_weaviate ins [] n st2 = Inr st2" by (rule send_to_weaviate_empty)
qed

theorem sink_never_called_with_empty_batch_witness:
  "map length (calls_since fresh_world (ol_env (final_state
      (process_jsonl_file accepting [line_of [160000, 400000], Malformed, line_of [], line_of [600000, 8]]
         ''doc'' 136000 fresh_world))))
     = [1, 1, 1, 1]
   \<and> list_all nonempty (calls_since fresh_world (ol_env (final_state
      (process_jsonl_file accepting [line_of [160000, 400000], Malformed, line_of [], line_of [600000, 8]]
         ''doc'' 136000 fresh_world))))
   \<and> calls_since fresh_world
        (snd (process_document accepting ''f.json'' (doc_of []) fresh_world)) = []"
  using sink_never_called_with_empty_batch
          [where w = fresh_world and ins = accepting
             and lines = "[line_of [160000, 400000], Malformed, line_of [], line_of [600000, 8]]"
             and doc = "''doc''" and m = 136000 and w' = fresh_world and ins' = accepting
             and fname = "''f.json''" and data = "doc_of []"]
  by (simp add: ol_eval) (simp add: mx_eval)

text \<open>
  Claim C7, as stated, fails on the runs that an exception ends. In the older loader,
  against a sink that raises the read-only error, the line with chunks of 8, 600000 and 8
  characters stops at the first flush: two records have been counted as processed, one as
  failed, none as imported, and the third is never reached. In
  \<open>batchAddStateCollection.py\<close> a line with the key \<open>parent_x\<close> raises a \<open>ValueError\<close> that
  nothing catches: the two records of the line before it are counted as processed and
  were never sent.
\<close>

theorem aborted_run_leaves_records_uncounted:
  "process_jsonl_file (raising ''Store is READ-ONLY'') [line_of [8, 600000, 8]] ''doc'' 136000
       fresh_world
     = Inl (SinkError ''Store is READ-ONLY'',
            final_state (process_jsonl_file (raising ''Store is READ-ONLY'')
                           [line_of [8, 600000, 8]] ''doc'' 136000 fresh_world))
   \<and> chunk_total [line_of [8, 600000, 8]] = 3
   \<and> processed (final_state (process_jsonl_file (raising ''Store is READ-ONLY'')
                           [line_of [8, 600000, 8]] ''doc'' 136000 fresh_world)) = 2
   \<and> imported (final_state (process_jsonl_file (raising ''Store is READ-ONLY'')
                           [line_of [8, 600000, 8]] ''doc'' 136000 fresh_world)) = 0
   \<and> failed (final_state (process_jsonl_file (raising ''Store is READ-ONLY'')
                           [line_of [8, 600000, 8]] ''doc'' 136000 fresh_world)) = 1
   \<and> batch_add_state_collection accepting
        [line_of [8, 8],
         Parsed \<lparr>line_fields = [(''parent_x'', ''Title 1'')], line_chunks = Some [chunk_of 8]\<rparr>]
        fresh_world
     = Inl (ValueError,
            final_state (batch_add_state_collection accepting
              [line_of [8, 8],
               Parsed \<lparr>line_fields = [(''parent_x'', ''Title 1'')],
                       line_chunks = Some [chunk_of 8]\<rparr>]
              fresh_world))
   \<and> total_chunks_processed (final_state (batch_add_state_collection accepting
              [line_of [8, 8],
               Parsed \<lparr>line_fields = [(''parent_x'', ''Title 1'')],
                       line_chunks = Some [chunk_of 8]\<rparr>]
              fresh_world)) = 2
   \<and> total_chunks_imported (final_state (batch_add_state_collection accepting
              [line_of [8, 8],
               Parsed \<lparr>line_fields = [(''parent_x'', ''Title 1'')],
                       line_chunks = Some [chunk_of 8]\<rparr>]
              fresh_world)) = 0
   \<and> total_failed (final_state (batch_add_state_collection accepting
              [line_of [8, 8],
               Parsed \<lparr>line_fields = [(''parent_x'', ''Title 1'')],
                       line_chunks = Some [chunk_of 8]\<rparr>]
              fresh_world)) = 0"
proof -
  let ?ol = "process_jsonl_file (raising ''Store is READ-ONLY'') [line_of [8, 600000, 8]]
               ''doc'' 136000 fresh_world"
  let ?bad = "Parsed \<lparr>line_fields = [(''parent_x'', ''Title 1'')],
                        line_chunks = Some [chunk_of 8]\<rparr>"
  let ?us = "batch_add_state_collection accepting [line_of [8, 8], ?bad] fresh_world"
  have px: "extract_parent_info [(''parent_x'', ''Title 1'')] = Inl ValueError"
    by (simp add: extract_parent_info_def startswith_def parent_number_def py_int_def strip_def
          isspace_def parse_digits_def is_digit_def digits_value_def get_or_def Let_def)
  have a: "?ol = Inl (SinkError ''Store is READ-ONLY'', final_state ?ol)"
    by (simp add: ol_eval raising_def is_disk_full_read_only)
  have n: "chunk_total [line_of [8, 600000, 8]] = 3"
    by (simp add: chunk_total_def line_of_def get_or_def)
  have b: "processed (final_state ?ol) = 2"
    by (simp add: ol_eval raising_def is_disk_full_read_only)
  have c: "imported (final_state ?ol) = 0"
    by (simp add: ol_eval raising_def is_disk_full_read_only)
  have d: "failed (final_state ?ol) = 1"
    by (simp add: ol_eval raising_def is_disk_full_read_only)
  have e: "?us = Inl (ValueError, final_state ?us)"
    by (simp add: us_eval px)
  have f: "total_chunks_processed (final_state ?us) = 2"
    by (simp add: us_eval px)
  have g: "total_chunks_imported (final_state ?us) = 0"
    by (simp add: us_eval px)
  have h: "total_failed (final_state ?us) = 0"
    by (simp add: us_eval px)
  show ?thesis
    by (intro conjI) (rule a, rule n, rule b, rule c, rule d, rule e, rule f, rule g, rule h)
qed

text \<open>
  Claim C7, amended. When a run of one of the two JSONL loaders ends without an exception
  leaving it, the imported and failed counts add up to the number of records processed,
  which is the number of chunks of the lines that parsed. \<open>process_document\<close> returns for
  every input, and its two counts add up to the number of paragraphs of the document.
\<close>

theorem imported_plus_failed_is_processed:
  "(batch_add_state_collection ins lines w = Inr st \<longrightarrow>
      total_chunks_imported st + total_failed st = total_chunks_processed st
      \<and> total_chunks_processed st = int (chunk_total lines))
   \<and> (process_jsonl_file ins lines doc m w = Inr st2 \<longrightarrow>
      imported st2 + failed st2 = processed st2 \<and> processed st2 = int (chunk_total lines))
   \<and> (process_document ins' fname data w' = ((inserted, failed_count), w'') \<longrightarrow>
      inserted + failed_count = int (length (get_or (d_paragraphs_by_bold data) [])))"
proof (intro conjI impI)
  assume "batch_add_state_collection ins lines w = Inr st"
  from batch_add_state_collection_count[OF this]
  show "total_chunks_imported st + total_failed st = total_chunks_processed st"
       "total_chunks_processed st = int (chunk_total lines)" by simp_all
next
  assume "process_jsonl_file ins lines doc m w = Inr st2"
  from process_jsonl_file_count[OF this]
  show "imported st2 + failed st2 = processed st2" "processed st2 = int (chunk_total lines)"
    by simp_all
next
  assume "process_document ins' fname data w' = ((inserted, failed_count), w'')"
  then show "inserted + failed_count = int (length (get_or (d_paragraphs_by_bold data) []))"
    using process_document_count[of ins' fname data w'] by simp
qed

theorem imported_plus_failed_is_processed_witness:
  "batch_add_state_collection (raising_first 1 ''timeout'')
       [line_of [160000, 400000], Malformed, line_of [600000, 8]] fresh_world
     = Inr (final_state (batch_add_state_collection (raising_first 1 ''timeout'')
              [line_of [160000, 400000], Malformed, line_of [600000, 8]] fresh_world))
   \<and> total_chunks_imported (final_state (batch_add_state_collection (raising_first 1 ''timeout'')
              [line_of [160000, 400000], Malformed, line_of [600000, 8]] fresh_world))
     + total_failed (final_state (batch_add_state_collection (raising_first 1 ''timeout'')
              [line_of [160000, 400000], Malformed, line_of [600000, 8]] fresh_world)) = 4
   \<and> process_jsonl_file (raising_first 1 ''timeout'')
       [line_of [160000, 400000], Malformed, line_of [600000, 8]] ''doc'' 136000 fresh_world
     = Inr (final_state (process_jsonl_file (raising_first 1 ''timeout'')
              [line_of [160000, 400000], Malformed, line_of [600000, 8]] ''doc'' 136000 fresh_world))
   \<and> imported (final_state (process_jsonl_file (raising_first 1 ''timeout'')
              [line_of [160000, 400000], Malformed, line_of [600000, 8]] ''doc'' 136000 fresh_world))
     + failed (final_state (process_jsonl_file (raising_first 1 ''timeout'')
              [line_of [160000, 400000], Malformed, line_of [600000, 8]] ''doc'' 136000 fresh_world)) = 4
   \<and> fst (fst (process_document (raising ''timeout'') ''f.json''
                  (doc_of [160000, 200000, 200000]) fresh_world))
     + snd (fst (process_document (raising ''timeout'') ''f.json''
                  (doc_of [160000, 200000, 200000]) fresh_world)) = 3"
proof -
  let ?lines = "[line_of [160000, 400000], Malformed, line_of [600000, 8]]"
  let ?us = "batch_add_state_collection (raising_first 1 ''timeout'') ?lines fresh_world"
  let ?ol = "process_jsonl_file (raising_first 1 ''timeout'') ?lines ''doc'' 136000 fresh_world"
  let ?mx = "process_document (raising ''timeout'') ''f.json'' (doc_of [160000, 200000, 200000])
               fresh_world"
  have us: "?us = Inr (final_state ?us)"
    by (simp add: us_eval raising_first_def log_entries_world)
  have ol: "?ol = Inr (final_state ?ol)"
    by (simp add: ol_eval raising_first_def is_disk_full_def lower_def lower_char_def
          startswith_def log_entries_world)
  have mx: "?mx = ((fst (fst ?mx), snd (fst ?mx)), snd ?mx)" by simp
  have n: "int (chunk_total ?lines) = 4"
    by (simp add: chunk_total_def line_of_def get_or_def)
  have len: "int (length (get_or (d_paragraphs_by_bold (doc_of [160000, 200000, 200000])) [])) = 3"
    by (simp add: doc_of_def get_or_def)
  note t = imported_plus_failed_is_processed
      [where ins = "raising_first 1 ''timeout''" and lines = ?lines and w = fresh_world
         and st = "final_state ?us" and doc = "''doc''" and m = 136000
         and ?st2.0 = "final_state ?ol" and ins' = "raising ''timeout''" and fname = "''f.json''"
         and data = "doc_of [160000, 200000, 200000]" and w' = fresh_world
         and inserted = "fst (fst ?mx)" and failed_count = "snd (fst ?mx)" and w'' = "snd ?mx"]
  have a: "total_chunks_imported (final_state ?us) + total_failed (final_state ?us) = 4"
    using t[THEN conjunct1, THEN mp, OF us] unfolding n by (elim conjE) (erule trans, assumption)
  have b: "imported (final_state ?ol) + failed (final_state ?ol) = 4"
    using t[THEN conjunct2, THEN conjunct1, THEN mp, OF ol] unfolding n
    by (elim conjE) (erule trans, assumption)
  have c: "fst (fst ?mx) + snd (fst ?mx) = 3"
    using t[THEN conjunct2, THEN conjunct2, THEN mp, OF mx] unfolding len .
  show ?thesis
    by (intro conjI) (rule us, rule a, rule ol, rule b, rule c)
qed

section \<open>Oversized records\<close>

lemma process_paragraph_item:
  "process_paragraph ins dn dt oc fname st para =
     (let item = batch_item_of dn dt oc fname para; tk = token_count item
      in if mx_current_batch st \<noteq> [] \<and> mx_current_batch_tokens st + tk > MX_MAX_BATCH_TOKENS
         then (flush_batch ins (mx_current_batch st) st)
                \<lparr>mx_current_batch := [item], mx_current_batch_tokens := tk\<rparr>
         else if tk > MX_MAX_BATCH_TOKENS
         then flush_batch ins [item]
                (if mx_current_batch st \<noteq> []
                 then mx_reset (flush_batch ins (mx_current_batch st) st) else st)
         else st\<lparr>mx_current_batch := mx_current_batch st @ [item],
                 mx_current_batch_tokens := mx_current_batch_tokens st + tk\<rparr>)"
  by (cases "create_chunk_object para dn dt oc")
     (simp add: process_paragraph_def batch_item_of_def Let_def mx_reset_def)

lemma token_count_item:
  "token_count (batch_item_of dn dt oc fname para) = approx_tokens (get_or (p_content para) [])"
  by (simp add: batch_item_of_def create_chunk_object_def Let_def)

lemma token_count_item_pos: "1 \<le> token_count (batch_item_of dn dt oc fname para)"
  by (simp add: token_count_item approx_tokens_pos)

lemma flush_batch_set_batch:
  "flush_batch ins items (st\<lparr>mx_current_batch := b, mx_current_batch_tokens := t\<rparr>)
   = (flush_batch ins items st)\<lparr>mx_current_batch := b, mx_current_batch_tokens := t\<rparr>"
  by (simp add: flush_batch_def split: prod.splits)

lemma flush_batch_reset: "flush_batch ins items (mx_reset st) = mx_reset (flush_batch ins items st)"
  by (simp add: mx_reset_def flush_batch_set_batch)

lemma flush_batch_bump: "flush_batch ins items (mx_bump a b st) = mx_bump a b (flush_batch ins items st)"
  by (simp add: mx_bump_def flush_batch_def split: prod.splits)

lemma mx_bump_fields:
  "mx_current_batch (mx_bump a b st) = mx_current_batch st"
  "mx_current_batch_tokens (mx_bump a b st) = mx_current_batch_tokens st"
  "mx_env (mx_bump a b st) = mx_env st"
  "chunks_inserted (mx_bump a b st) = chunks_inserted st + a"
  "chunks_failed (mx_bump a b st) = chunks_failed st + b"
  by (simp_all add: mx_bump_def)

lemma mx_bump_set_batch:
  "(mx_bump a b st)\<lparr>mx_current_batch := x, mx_current_batch_tokens := t\<rparr>
   = mx_bump a b (st\<lparr>mx_current_batch := x, mx_current_batch_tokens := t\<rparr>)"
  by (simp add: mx_bump_def)

lemma mx_reset_bump: "mx_reset (mx_bump a b st) = mx_bump a b (mx_reset st)"
  by (simp add: mx_bump_def mx_reset_def)

lemma process_paragraph_bump:
  "process_paragraph ins dn dt oc fname (mx_bump a b st) para
   = mx_bump a b (process_paragraph ins dn dt oc fname st para)"
  by (simp add: process_paragraph_item Let_def mx_bump_fields flush_batch_bump mx_bump_set_batch
        mx_reset_bump)

lemma paragraphs_bump:
  "foldl (process_paragraph ins dn dt oc fname) (mx_bump a b st) paras
   = mx_bump a b (foldl (process_paragraph ins dn dt oc fname) st paras)"
  by (induction paras arbitrary: st) (simp_all add: process_paragraph_bump)

lemma mx_finish_bump: "mx_finish ins (mx_bump a b st) = mx_bump a b (mx_finish ins st)"
  by (simp add: mx_finish_def mx_bump_fields flush_batch_bump)

lemma mx_result_bump:
  "mx_result (mx_bump a b st)
   = ((fst (fst (mx_result st)) + a, snd (fst (mx_result st)) + b), snd (mx_result st))"
  by (simp add: mx_result_def mx_bump_fields)

text \<open>A pending batch that is one oversized record is sent alone whatever follows.\<close>

lemma deferred_singleton:
  assumes "mx_current_batch st = [item]" "mx_current_batch_tokens st > MX_MAX_BATCH_TOKENS"
  shows "mx_result (mx_finish ins (foldl (process_paragraph ins dn dt oc fname) st post))
       = mx_result (mx_finish ins (foldl (process_paragraph ins dn dt oc fname)
                      (mx_reset (flush_batch ins [item] st)) post))"
  using assms
proof (induction post arbitrary: st item)
  case Nil
  then show ?case
    by (simp add: mx_finish_def mx_reset_def mx_result_def)
next
  case (Cons x xs)
  define xi where "xi = batch_item_of dn dt oc fname x"
  define tk where "tk = token_count xi"
  have pos: "1 \<le> tk" unfolding tk_def xi_def by (rule token_count_item_pos)
  have over: "mx_current_batch_tokens st + tk > MX_MAX_BATCH_TOKENS"
    using Cons.prems(2) pos by simp
  have l: "process_paragraph ins dn dt oc fname st x
         = (flush_batch ins [item] st)\<lparr>mx_current_batch := [xi], mx_current_batch_tokens := tk\<rparr>"
    using Cons.prems(1) over
    by (simp add: process_paragraph_item Let_def xi_def[symmetric] tk_def[symmetric])
  let ?r = "mx_reset (flush_batch ins [item] st)"
  have rf: "mx_current_batch ?r = []" "mx_current_batch_tokens ?r = 0"
    by (simp_all add: mx_reset_def)
  show ?case
  proof (cases "tk > MX_MAX_BATCH_TOKENS")
    case True
    have r: "process_paragraph ins dn dt oc fname ?r x = flush_batch ins [xi] ?r"
      using True
      by (simp add: process_paragraph_item Let_def xi_def[symmetric] tk_def[symmetric] rf)
    let ?a = "(flush_batch ins [item] st)\<lparr>mx_current_batch := [xi], mx_current_batch_tokens := tk\<rparr>"
    have "mx_result (mx_finish ins (foldl (process_paragraph ins dn dt oc fname) ?a xs))
        = mx_result (mx_finish ins (foldl (process_paragraph ins dn dt oc fname)
                      (mx_reset (flush_batch ins [xi] ?a)) xs))"
      using True by (intro Cons.IH) simp_all
    moreover have "mx_reset (flush_batch ins [xi] ?a) = flush_batch ins [xi] ?r"
      by (simp add: flush_batch_set_batch mx_reset_def)
    ultimately show ?thesis by (simp add: l r)
  next
    case False
    have r: "process_paragraph ins dn dt oc fname ?r x
           = ?r\<lparr>mx_current_batch := [xi], mx_current_batch_tokens := tk\<rparr>"
      using False
      by (simp add: process_paragraph_item Let_def xi_def[symmetric] tk_def[symmetric] rf)
    have "?r\<lparr>mx_current_batch := [xi], mx_current_batch_tokens := tk\<rparr>
        = (flush_batch ins [item] st)\<lparr>mx_current_batch := [xi], mx_current_batch_tokens := tk\<rparr>"
      by (simp add: mx_reset_def)
    then show ?thesis by (simp add: l r)
  qed
qed

lemma mx_batch_tokens_nonneg:
  assumes "mx_batch_ok st"
  shows "0 \<le> mx_current_batch_tokens st"
proof -
  have "0 \<le> sum_list (map token_count items)"
    if "\<forall>item \<in> set items. token_count item = mx_weight (obj item)" for items
    using that
  proof (induction items)
    case Nil
    then show ?case by simp
  next
    case (Cons a as)
    have "1 \<le> token_count a" using Cons.prems by (simp add: mx_weight_def approx_tokens_pos)
    then show ?case using Cons by simp
  qed
  then have "0 \<le> sum_list (map token_count (mx_current_batch st))"
    using assms by (auto simp: mx_batch_ok_def)
  then show ?thesis using assms by (simp add: mx_batch_ok_def)
qed

lemma oversized_then_rest:
  assumes ok: "mx_batch_ok st"
    and over: "token_count (batch_item_of dn dt oc fname r) > MX_MAX_BATCH_TOKENS"
  shows "mx_result (mx_finish ins (foldl (process_paragraph ins dn dt oc fname)
                      (process_paragraph ins dn dt oc fname st r) post))
       = mx_result (mx_finish ins (foldl (process_paragraph ins dn dt oc fname)
                      (mx_reset (flush_batch ins [batch_item_of dn dt oc fname r] (mx_finish ins st)))
                      post))"
proof -
  define item where "item = batch_item_of dn dt oc fname r"
  define tk where "tk = token_count item"
  have tk: "tk > MX_MAX_BATCH_TOKENS" using over by (simp add: tk_def item_def)
  show ?thesis
  proof (cases "mx_current_batch st = []")
    case True
    then have z: "mx_current_batch_tokens st = 0" using ok by (simp add: mx_batch_ok_def)
    have "process_paragraph ins dn dt oc fname st r = flush_batch ins [item] st"
      using True tk
      by (simp add: process_paragraph_item Let_def item_def[symmetric] tk_def[symmetric])
    moreover have "mx_reset st = st"
      unfolding mx_reset_def by (rule doc_state.equality) (simp_all add: True z)
    then have "mx_reset (flush_batch ins [item] (mx_finish ins st)) = flush_batch ins [item] st"
      using True by (simp add: mx_finish_def flush_batch_reset[symmetric])
    ultimately show ?thesis by (simp add: item_def)
  next
    case False
    have "0 \<le> mx_current_batch_tokens st" using ok by (rule mx_batch_tokens_nonneg)
    then have "mx_current_batch_tokens st + tk > MX_MAX_BATCH_TOKENS" using tk by simp
    then have l: "process_paragraph ins dn dt oc fname st r
         = (flush_batch ins (mx_current_batch st) st)
              \<lparr>mx_current_batch := [item], mx_current_batch_tokens := tk\<rparr>"
      using False
      by (simp add: process_paragraph_item Let_def item_def[symmetric] tk_def[symmetric])
    let ?a = "(flush_batch ins (mx_current_batch st) st)
              \<lparr>mx_current_batch := [item], mx_current_batch_tokens := tk\<rparr>"
    have "mx_result (mx_finish ins (foldl (process_paragraph ins dn dt oc fname) ?a post))
        = mx_result (mx_finish ins (foldl (process_paragraph ins dn dt oc fname)
                      (mx_reset (flush_batch ins [item] ?a)) post))"
      using tk by (intro deferred_singleton) simp_all
    moreover have "mx_reset (flush_batch ins [item] ?a)
                 = mx_reset (flush_batch ins [item] (mx_finish ins st))"
      using False by (simp add: flush_batch_set_batch mx_reset_def mx_finish_def)
    ultimately show ?thesis by (simp add: l item_def)
  qed
qed

lemma restart_after_flush:
  "mx_reset (flush_batch ins items st)
   = mx_bump (chunks_inserted st + fst (fst (insert_batch_with_retry ins items 60 (mx_env st))))
             (chunks_failed st + snd (fst (insert_batch_with_retry ins items 60 (mx_env st))))
             (mx_start (snd (insert_batch_with_retry ins items 60 (mx_env st))))"
  by (simp add: mx_reset_def flush_batch_def mx_bump_def mx_start_def split: prod.splits)

lemma oversized_run:
  assumes over: "token_count (batch_item_of dn dt oc fname r) > MX_MAX_BATCH_TOKENS"
  shows "mx_result (mx_finish ins (foldl (process_paragraph ins dn dt oc fname) (mx_start w)
                      (pre @ r # post)))
       = (case mx_result (mx_finish ins (foldl (process_paragraph ins dn dt oc fname) (mx_start w) pre)) of
            ((i1, f1), w1) \<Rightarrow>
              (case insert_batch_with_retry ins [batch_item_of dn dt oc fname r] 60 w1 of
                 ((i2, f2), w2) \<Rightarrow>
                   (case mx_result (mx_finish ins (foldl (process_paragraph ins dn dt oc fname)
                                                      (mx_start w2) post)) of
                      ((i3, f3), w3) \<Rightarrow> ((i1 + i2 + i3, f1 + f2 + f3), w3))))"
proof -
  let ?S = "process_paragraph ins dn dt oc fname"
  define sp where "sp = foldl ?S (mx_start w) pre"
  define fp where "fp = mx_finish ins sp"
  have ok: "mx_batch_ok sp"
    unfolding sp_def using mx_loop_inv[OF mx_start_inv] by blast
  have "mx_result (mx_finish ins (foldl ?S (mx_start w) (pre @ r # post)))
      = mx_result (mx_finish ins (foldl ?S (?S sp r) post))"
    by (simp add: sp_def)
  also have "\<dots> = mx_result (mx_finish ins (foldl ?S
                      (mx_reset (flush_batch ins [batch_item_of dn dt oc fname r] fp)) post))"
    unfolding fp_def by (rule oversized_then_rest[OF ok over])
  finally have e: "mx_result (mx_finish ins (foldl ?S (mx_start w) (pre @ r # post)))
      = mx_result (mx_finish ins (foldl ?S
                      (mx_reset (flush_batch ins [batch_item_of dn dt oc fname r] fp)) post))" .
  have fpr: "mx_result fp = ((chunks_inserted fp, chunks_failed fp), mx_env fp)"
    by (simp add: mx_result_def)
  show ?thesis
    unfolding e sp_def[symmetric] fp_def[symmetric] fpr
    by (simp add: restart_after_flush paragraphs_bump mx_finish_bump mx_result_bump
             split: prod.splits)
qed

lemma process_document_paragraphs:
  "process_document ins fname (data\<lparr>d_paragraphs_by_bold := Some paras\<rparr>) w =
     mx_result (mx_finish ins
       (foldl (process_paragraph ins (get_or (d_name data) []) (get_or (d_Tipo data) [])
                 (get_or (d_onlyContent data) False) fname)
              (mx_start w) paras))"
  by (simp add: process_document_unfold get_or_def)

lemma oversized_chunk_calls:
  assumes "approx_tokens (get_or (c_content ch) []) > US_MAX_BATCH_TOKENS"
  shows "calls_since (us_env st) (us_env (process_chunk ins art fa st ch))
         = (if current_batch st = [] then [] else [current_batch st])
           @ [[chunk_properties ch art fa fileName]]"
    and "current_batch (process_chunk ins art fa st ch) = []"
proof -
  define props where "props = chunk_properties ch art fa fileName"
  define sp where "sp = st\<lparr>total_chunks_processed := total_chunks_processed st + 1\<rparr>"
  define st1 where "st1 = (if current_batch sp \<noteq> []
                          then (send_batch ins (current_batch sp) sp)
                                 \<lparr>current_batch := [], current_batch_tokens := 0\<rparr>
                          else sp)"
  have eq: "process_chunk ins art fa st ch = send_batch ins [props] st1"
    using assms unfolding process_chunk_def Let_def props_def sp_def st1_def by simp
  have sp: "current_batch sp = current_batch st" "us_env sp = us_env st"
    by (simp_all add: sp_def)
  have c1: "sink_calls (us_env st1)
            = sink_calls (us_env st) @ (if current_batch st = [] then [] else [current_batch st])"
    using send_batch_calls[of "current_batch sp" ins sp] by (simp add: st1_def sp)
  have b1: "current_batch st1 = []" by (simp add: st1_def sp)
  have c2: "sink_calls (us_env (send_batch ins [props] st1)) = sink_calls (us_env st1) @ [[props]]"
    by (rule send_batch_calls) simp
  show "calls_since (us_env st) (us_env (process_chunk ins art fa st ch))
         = (if current_batch st = [] then [] else [current_batch st])
           @ [[chunk_properties ch art fa fileName]]"
    unfolding eq calls_since_def c2 c1 by (simp add: props_def)
  show "current_batch (process_chunk ins art fa st ch) = []"
    by (simp add: eq send_batch_fields b1)
qed

text \<open>
  Claim C2. A record whose weight exceeds the limit reaches the sink alone, after the
  pending batch, which is sent as it stands. In \<open>batchAddStateCollection.py\<close> the step
  that handles such a chunk hands to the sink the pending batch (when there is one) and
  then the singleton, and leaves no pending batch. In \<open>process_document\<close> of
  \<open>mx/addToCollection.py\<close>, whatever the sink answers, a run over paragraphs
  \<open>pre @ r # post\<close> with \<open>r\<close> oversized is a whole run over \<open>pre\<close> (whose last act is to
  send the pending batch), then the insertion of \<open>r\<close> alone, then a fresh run over \<open>post\<close>.
\<close>

theorem oversized_record_flushed_alone:
  "(approx_tokens (get_or (c_content ch) []) > US_MAX_BATCH_TOKENS \<longrightarrow>
      calls_since (us_env st) (us_env (process_chunk ins art fa st ch))
        = (if current_batch st = [] then [] else [current_batch st])
          @ [[chunk_properties ch art fa fileName]]
      \<and> current_batch (process_chunk ins art fa st ch) = [])
   \<and> (approx_tokens (get_or (p_content r) []) > MX_MAX_BATCH_TOKENS \<longrightarrow>
      process_document ins' fname (data\<lparr>d_paragraphs_by_bold := Some (pre @ r # post)\<rparr>) w
        = (case process_document ins' fname (data\<lparr>d_paragraphs_by_bold := Some pre\<rparr>) w of
             ((i1, f1), w1) \<Rightarrow>
               (case insert_batch_with_retry ins'
                       [batch_item_of (get_or (d_name data) []) (get_or (d_Tipo data) [])
                          (get_or (d_onlyContent data) False) fname r] 60 w1 of
                  ((i2, f2), w2) \<Rightarrow>
                    (case process_document ins' fname
                            (data\<lparr>d_paragraphs_by_bold := Some post\<rparr>) w2 of
                       ((i3, f3), w3) \<Rightarrow> ((i1 + i2 + i3, f1 + f2 + f3), w3)))))"
proof (intro conjI impI)
  assume a: "approx_tokens (get_or (c_content ch) []) > US_MAX_BATCH_TOKENS"
  show "calls_since (us_env st) (us_env (process_chunk ins art fa st ch))
        = (if current_batch st = [] then [] else [current_batch st])
          @ [[chunk_properties ch art fa fileName]]"
    by (rule oversized_chunk_calls(1)[OF a])
  show "current_batch (process_chunk ins art fa st ch) = []"
    by (rule oversized_chunk_calls(2)[OF a])
next
  assume "approx_tokens (get_or (p_content r) []) > MX_MAX_BATCH_TOKENS"
  then have "token_count (batch_item_of (get_or (d_name data) []) (get_or (d_Tipo data) [])
                          (get_or (d_onlyContent data) False) fname r) > MX_MAX_BATCH_TOKENS"
    by (simp add: token_count_item)
  from oversized_run[OF this]
  show "process_document ins' fname (data\<lparr>d_paragraphs_by_bold := Some (pre @ r # post)\<rparr>) w
        = (case process_document ins' fname (data\<lparr>d_paragraphs_by_bold := Some pre\<rparr>) w of
             ((i1, f1), w1) \<Rightarrow>
               (case insert_batch_with_retry ins'
                       [batch_item_of (get_or (d_name data) []) (get_or (d_Tipo data) [])
                          (get_or (d_onlyContent data) False) fname r] 60 w1 of
                  ((i2, f2), w2) \<Rightarrow>
                    (case process_document ins' fname
                            (data\<lparr>d_paragraphs_by_bold := Some post\<rparr>) w2 of
                       ((i3, f3), w3) \<Rightarrow> ((i1 + i2 + i3, f1 + f2 + f3), w3))))"
    unfolding process_document_paragraphs by simp
qed

text \<open>The scenario of the specification: under the limit 120000, a record of weight 130000
  arriving while a batch of weight 30000 is pending. The sink receives the batch of weight
  30000, then the singleton of weight 130000.\<close>

theorem oversized_record_flushed_alone_witness:
  "approx_tokens (get_or (p_content (para_of 520000)) []) > MX_MAX_BATCH_TOKENS
   \<and> map (map mx_weight) (calls_since fresh_world
        (snd (process_document accepting ''f.json''
                ((doc_of [])\<lparr>d_paragraphs_by_bold := Some ([para_of 120000] @ para_of 520000 # [])\<rparr>)
                fresh_world)))
     = [[30000], [130000]]
   \<and> approx_tokens (get_or (c_content (chunk_of 600000)) []) > US_MAX_BATCH_TOKENS
   \<and> map (map us_weight) (calls_since fresh_world
        (us_env (process_chunk accepting ''a'' [] (process_chunk accepting ''a'' [] (us_initial fresh_world)
                   (chunk_of 120000)) (chunk_of 600000))))
     = [[30000], [150000]]"
proof -
  have h1: "approx_tokens (get_or (p_content (para_of 520000)) []) > MX_MAX_BATCH_TOKENS"
    by (simp add: para_of_def get_or_def approx_tokens_filler MX_MAX_BATCH_TOKENS_def)
  have h2: "approx_tokens (get_or (c_content (chunk_of 600000)) []) > US_MAX_BATCH_TOKENS"
    by (simp add: chunk_of_def get_or_def approx_tokens_filler US_MAX_BATCH_TOKENS_def)
  note t = oversized_record_flushed_alone
      [where ch = "chunk_of 600000" and ins = accepting and art = "''a''" and fa = "[]"
         and st = "process_chunk accepting ''a'' [] (us_initial fresh_world) (chunk_of 120000)"
         and r = "para_of 520000" and ins' = accepting and fname = "''f.json''"
         and data = "doc_of []" and pre = "[para_of 120000]" and post = "[]" and w = fresh_world]
  have mx: "map (map mx_weight) (calls_since fresh_world
        (snd (process_document accepting ''f.json''
                ((doc_of [])\<lparr>d_paragraphs_by_bold := Some ([para_of 120000] @ para_of 520000 # [])\<rparr>)
                fresh_world)))
     = [[30000], [130000]]"
    unfolding t[THEN conjunct2, THEN mp, OF h1]
    by (simp add: mx_eval batch_item_of_def)
  have us0: "sink_calls (us_env (process_chunk accepting ''a'' [] (us_initial fresh_world)
                   (chunk_of 120000))) = []"
    by (simp add: us_eval)
  have us: "map (map us_weight) (calls_since fresh_world
        (us_env (process_chunk accepting ''a'' [] (process_chunk accepting ''a'' [] (us_initial fresh_world)
                   (chunk_of 120000)) (chunk_of 600000))))
     = [[30000], [150000]]"
    using t[THEN conjunct1, THEN mp, OF h2, THEN conjunct1] us0
    by (simp add: calls_since_def fresh_world_def) (simp add: us_eval)
  show ?thesis
    by (intro conjI) (rule h1, rule mx, rule h2, rule us)
qed

section \<open>Retries, rejected objects and fatal errors\<close>

lemma log_entries_fold:
  "foldl (\<lambda>w' item. append_entry (f item) w') w items
   = w\<lparr>failure_log := failure_log w @ map f items\<rparr>"
  by (induction items arbitrary: w) (simp_all add: append_entry_def)

lemma retry_both_raise:
  assumes "ins (sink w) (map obj items) = (Raised e0, k1)"
    and "ins k1 (map obj items) = (Raised e, k2)"
  shows "insert_batch_with_retry ins items d w =
           ((0, int (length items)),
            w\<lparr>sink := k2,
              sink_calls := sink_calls w @ [map obj items, map obj items],
              sleeps := sleeps w @ [d],
              failure_log := failure_log w @ map (make_error_info e) items\<rparr>)"
  using assms
  by (simp add: insert_batch_with_retry_unfold bulk_insert_def sleep_def log_entries_fold)

lemma retry_succeeds:
  assumes "ins (sink w) (map obj items) = (Raised e0, k1)"
    and "ins k1 (map obj items) = (Completed fs, k2)"
  shows "insert_batch_with_retry ins items d w =
           ((int (length items), 0),
            w\<lparr>sink := k2,
              sink_calls := sink_calls w @ [map obj items, map obj items],
              sleeps := sleeps w @ [d]\<rparr>)"
  using assms
  by (simp add: insert_batch_with_retry_unfold bulk_insert_def sleep_def)

lemma first_attempt_succeeds:
  assumes "ins (sink w) (map obj items) = (Completed fs, k1)"
  shows "insert_batch_with_retry ins items d w =
           ((int (length items), 0),
            w\<lparr>sink := k1, sink_calls := sink_calls w @ [map obj items]\<rparr>)"
  using assms
  by (simp add: insert_batch_with_retry_unfold bulk_insert_def)

lemma send_batch_raised:
  assumes "batch \<noteq> []" "ins (sink (us_env st)) batch = (Raised e, k)"
  shows "send_batch ins batch st =
           st\<lparr>total_batches := total_batches st + 1,
              total_failed := total_failed st + int (length batch),
              us_env := (us_env st)
                \<lparr>sink := k, sink_calls := sink_calls (us_env st) @ [batch],
                 failure_log := failure_log (us_env st)
                                @ map (batch_entry e (total_batches st + 1)) batch\<rparr>\<rparr>"
  using assms
  by (simp add: send_batch_def bulk_insert_def Let_def log_entries_fold batch_entry_def)

lemma send_batch_completed:
  assumes "batch \<noteq> []" "ins (sink (us_env st)) batch = (Completed fs, k)"
  shows "send_batch ins batch st =
           st\<lparr>total_batches := total_batches st + 1,
              total_chunks_imported := total_chunks_imported st + int (length batch),
              us_env := (us_env st)\<lparr>sink := k, sink_calls := sink_calls (us_env st) @ [batch]\<rparr>\<rparr>"
  using assms
  by (simp add: send_batch_def bulk_insert_def Let_def)

lemma send_to_weaviate_rejected:
  assumes "batch \<noteq> []" "fs \<noteq> []" "ins (sink (ol_env st)) batch = (Completed fs, k)"
  shows "send_batch_to_weaviate ins batch n st =
           Inr (st\<lparr>failed := failed st + int (length fs),
                   imported := imported st + (int (length batch) - int (length fs)),
                   ol_env := (ol_env st)
                     \<lparr>sink := k, sink_calls := sink_calls (ol_env st) @ [batch],
                      failure_log := failure_log (ol_env st) @ map (rejected_entry n) fs\<rparr>\<rparr>)"
  using assms
  by (simp add: send_batch_to_weaviate_def bulk_insert_def Let_def log_rejected_fold)

lemma send_to_weaviate_accepted:
  assumes "batch \<noteq> []" "ins (sink (ol_env st)) batch = (Completed [], k)"
  shows "send_batch_to_weaviate ins batch n st =
           Inr (st\<lparr>imported := imported st + int (length batch),
                   ol_env := (ol_env st)
                     \<lparr>sink := k, sink_calls := sink_calls (ol_env st) @ [batch]\<rparr>\<rparr>)"
  using assms
  by (simp add: send_batch_to_weaviate_def bulk_insert_def Let_def)

lemma send_to_weaviate_fatal:
  assumes "batch \<noteq> []" "ins (sink (ol_env st)) batch = (Raised msg, k)" "is_disk_full msg"
  shows "send_batch_to_weaviate ins batch n st =
           Inl (SinkError msg,
                st\<lparr>failed := failed st + int (length batch),
                   ol_env := (ol_env st)
                     \<lparr>sink := k, sink_calls := sink_calls (ol_env st) @ [batch]\<rparr>\<rparr>)"
  using assms
  by (simp add: send_batch_to_weaviate_def bulk_insert_def Let_def)

lemma send_to_weaviate_transient:
  assumes "batch \<noteq> []" "ins (sink (ol_env st)) batch = (Raised msg, k)" "\<not> is_disk_full msg"
  shows "send_batch_to_weaviate ins batch n st =
           Inr (st\<lparr>failed := failed st + int (length batch),
                   ol_env := (ol_env st)
                     \<lparr>sink := k, sink_calls := sink_calls (ol_env st) @ [batch],
                      failure_log := failure_log (ol_env st) @ map (batch_entry msg n) batch\<rparr>\<rparr>)"
  using assms
  by (simp add: send_batch_to_weaviate_def bulk_insert_def Let_def log_entries_fold batch_entry_def)

lemma send_to_weaviate_stops:
  assumes "send_batch_to_weaviate ins batch n st = Inl (SinkError msg, st')"
  shows "stopped_at_raise ins msg st'"
proof -
  have ne: "batch \<noteq> []" using assms by (auto simp: send_batch_to_weaviate_def)
  obtain out k where i: "ins (sink (ol_env st)) batch = (out, k)"
    by (cases "ins (sink (ol_env st)) batch")
  show ?thesis
  proof (cases out)
    case (Raised m)
    show ?thesis
    proof (cases "is_disk_full m")
      case True
      from send_to_weaviate_fatal[where ins=ins and st=st and n=n, OF ne i[unfolded Raised] True] assms
      have "m = msg" and "st' = st\<lparr>failed := failed st + int (length batch),
                   ol_env := (ol_env st)
                     \<lparr>sink := k, sink_calls := sink_calls (ol_env st) @ [batch]\<rparr>\<rparr>"
        by simp_all
      then show ?thesis using True i Raised by auto
    next
      case False
      from send_to_weaviate_transient[where ins=ins and st=st and n=n, OF ne i[unfolded Raised] False] assms
      show ?thesis by simp
    qed
  next
    case (Completed fs)
    show ?thesis
    proof (cases "fs = []")
      case True
      from send_to_weaviate_accepted[where ins=ins and st=st and n=n, OF ne i[unfolded Completed True]] assms
      show ?thesis by simp
    next
      case False
      from send_to_weaviate_rejected[where ins=ins and st=st and n=n, OF ne False i[unfolded Completed]] assms
      show ?thesis by simp
    qed
  qed
qed

lemma send_pending_stops:
  assumes "send_pending ins st = Inl (SinkError msg, st')"
  shows "stopped_at_raise ins msg st'"
proof -
  have "send_batch_to_weaviate ins (objects st) (batches st + 1) (st\<lparr>batches := batches st + 1\<rparr>)
        = Inl (SinkError msg, st')"
    using assms unfolding send_pending_unfold by (simp split: sum.splits)
  then show ?thesis by (rule send_to_weaviate_stops)
qed

lemma handle_oversized_stops:
  assumes "handle_oversized_chunk ins props st = Inl (SinkError msg, st')"
  shows "stopped_at_raise ins msg st'"
proof -
  have "send_batch_to_weaviate ins [props] (batches st + 1) (st\<lparr>batches := batches st + 1\<rparr>)
        = Inl (SinkError msg, st')"
    using assms by (simp add: handle_oversized_chunk_def Let_def)
  then show ?thesis by (rule send_to_weaviate_stops)
qed

lemma line_chunk_stops:
  assumes "process_line_chunk ins art fa doc m st ch = Inl (SinkError msg, st')"
  shows "stopped_at_raise ins msg st'"
proof -
  define props where "props = chunk_properties ch art fa doc"
  define sp where "sp = st\<lparr>processed := processed st + 1\<rparr>"
  from assms have
    "send_pending ins sp = Inl (SinkError msg, st')
     \<or> (\<exists>s1. handle_oversized_chunk ins props s1 = Inl (SinkError msg, st'))"
    unfolding process_line_chunk_unfold Let_def props_def sp_def
    by (auto split: if_splits sum.splits)
  then show ?thesis
    using send_pending_stops handle_oversized_stops by blast
qed

lemma line_chunks_stop:
  assumes "process_line_chunks ins art fa doc m st chs = Inl (SinkError msg, st')"
  shows "stopped_at_raise ins msg st'"
  using assms
proof (induction chs arbitrary: st)
  case Nil
  then show ?case by simp
next
  case (Cons c cs)
  show ?case
  proof (cases "process_line_chunk ins art fa doc m st c")
    case (Inl err)
    then have "process_line_chunk ins art fa doc m st c = Inl (SinkError msg, st')"
      using Cons.prems by simp
    then show ?thesis by (rule line_chunk_stops)
  next
    case (Inr s1)
    then have "process_line_chunks ins art fa doc m s1 cs = Inl (SinkError msg, st')"
      using Cons.prems by simp
    then show ?thesis by (rule Cons.IH)
  qed
qed

lemma parent_number_error: "parent_number x = Inl e \<Longrightarrow> e = ValueError \<or> e = IndexError"
  by (auto simp: parent_number_def split: list.splits option.splits)

lemma with_keys_error: "with_keys ks = Inl e \<Longrightarrow> e = ValueError \<or> e = IndexError"
  by (induction ks) (auto split: sum.splits dest: parent_number_error)

lemma lookup_all_error: "lookup_all data ks = Inl e \<Longrightarrow> e = KeyError"
  by (induction ks) (auto split: option.splits sum.splits)

lemma extract_parent_info_error:
  "extract_parent_info data = Inl e \<Longrightarrow> e = ValueError \<or> e = IndexError \<or> e = KeyError"
  by (auto simp: extract_parent_info_def Let_def split: sum.splits if_splits
           dest: with_keys_error lookup_all_error)

lemma chunks_from_line_stop:
  assumes "process_chunks_from_line ins data doc m st = Inl (SinkError msg, st')"
  shows "stopped_at_raise ins msg st'"
proof (cases "extract_parent_info (line_fields data)")
  case (Inl e)
  then show ?thesis using assms extract_parent_info_error[OF Inl]
    by (auto simp: process_chunks_from_line_def)
next
  case (Inr p)
  obtain art fa where p: "p = (art, fa)" by (cases p)
  have "process_line_chunks ins art fa doc m st (get_or (line_chunks data) [])
        = Inl (SinkError msg, st')"
    using assms Inr by (simp add: process_chunks_from_line_def p)
  then show ?thesis by (rule line_chunks_stop)
qed

lemma jsonl_lines_stop:
  assumes "process_jsonl_lines ins doc m st lines = Inl (SinkError msg, st')"
  shows "stopped_at_raise ins msg st'"
  using assms
proof (induction ins doc m st lines rule: process_jsonl_lines.induct)
  case (1 ins doc max_tokens st)
  then show ?case by simp
next
  case (2 ins doc max_tokens st rest)
  then show ?case by simp
next
  case (3 ins doc max_tokens st data rest)
  show ?case
  proof (cases "process_chunks_from_line ins data doc max_tokens st")
    case (Inl err)
    then have "process_chunks_from_line ins data doc max_tokens st = Inl (SinkError msg, st')"
      using "3.prems" by simp
    then show ?thesis by (rule chunks_from_line_stop)
  next
    case (Inr s1)
    then have "process_jsonl_lines ins doc max_tokens s1 rest = Inl (SinkError msg, st')"
      using "3.prems" by simp
    from "3.IH"[OF Inr this] show ?thesis .
  qed
qed

lemma jsonl_file_stops:
  assumes "process_jsonl_file ins lines doc m w = Inl (SinkError msg, st')"
  shows "stopped_at_raise ins msg st'"
proof (cases "process_jsonl_lines ins doc m (loader_initial w) lines")
  case (Inl err)
  then have "process_jsonl_lines ins doc m (loader_initial w) lines = Inl (SinkError msg, st')"
    using assms by (simp add: process_jsonl_file_def)
  then show ?thesis by (rule jsonl_lines_stop)
next
  case (Inr st)
  then have "send_batch_to_weaviate ins (objects st) (batches st + 1)
               (st\<lparr>batches := batches st + 1\<rparr>) = Inl (SinkError msg, st')"
    using assms by (simp add: process_jsonl_file_def Let_def split: if_splits)
  then show ?thesis by (rule send_to_weaviate_stops)
qed

lemma jsonl_lines_append:
  "process_jsonl_lines ins doc m st (pre @ rest) =
     (case process_jsonl_lines ins doc m st pre of
        Inl err \<Rightarrow> Inl err
      | Inr st' \<Rightarrow> process_jsonl_lines ins doc m st' rest)"
  by (induction ins doc m st pre rule: process_jsonl_lines.induct)
     (simp_all split: sum.splits)

lemma line_chunks_append:
  "process_line_chunks ins art fa doc m st (chs @ rest) =
     (case process_line_chunks ins art fa doc m st chs of
        Inl err \<Rightarrow> Inl err
      | Inr st' \<Rightarrow> process_line_chunks ins art fa doc m st' rest)"
  by (induction chs arbitrary: st) (simp_all split: sum.splits)

text \<open>
  Claim C3, as stated, fails: \<open>send_batch\<close> of \<open>batchAddStateCollection.py\<close> has no retry.
  When the sink raises, the batch has been handed to it once, nothing has slept, and the
  record is already counted as failed and logged.
\<close>

theorem send_batch_has_no_retry:
  "calls_since fresh_world
     (us_env (send_batch (raising ''timeout'') [props_of 8] (us_initial fresh_world)))
     = [[props_of 8]]
   \<and> sleeps (us_env (send_batch (raising ''timeout'') [props_of 8] (us_initial fresh_world))) = []
   \<and> total_failed (send_batch (raising ''timeout'') [props_of 8] (us_initial fresh_world)) = 1
   \<and> length (failure_log
        (us_env (send_batch (raising ''timeout'') [props_of 8] (us_initial fresh_world)))) = 1"
  by (simp add: send_batch_def bulk_insert_def raising_def us_initial_def fresh_world_def
        calls_since_def Let_def log_entries_fold)

text \<open>
  Claim C3, amended. In \<open>mx/addToCollection.py\<close> an insertion that raises is attempted
  once more after a sleep of \<open>retry_delay\<close> seconds, 60 at every call site. When the second
  attempt raises too, every record of the batch is appended to the failure log with the
  message of that second exception (and its paragraph, document, type and file; the entry
  has no batch number), the result is \<open>(0, n)\<close>, and the caller goes on. When the second
  attempt succeeds the result is \<open>(n, 0)\<close> and nothing is logged. \<open>send_batch\<close> of
  \<open>batchAddStateCollection.py\<close> does not retry: the first exception logs every record
  with the message and the batch number and adds \<open>n\<close> to the failed count, the imported
  count staying as it was.
\<close>

theorem retry_once_then_log:
  "(ins (sink w) (map obj items) = (Raised e0, k1) \<and> ins k1 (map obj items) = (Raised e, k2) \<longrightarrow>
      insert_batch_with_retry ins items d w =
        ((0, int (length items)),
         w\<lparr>sink := k2,
           sink_calls := sink_calls w @ [map obj items, map obj items],
           sleeps := sleeps w @ [d],
           failure_log := failure_log w @ map (make_error_info e) items\<rparr>))
   \<and> (ins (sink w) (map obj items) = (Raised e0, k1) \<and> ins k1 (map obj items) = (Completed fs, k2) \<longrightarrow>
      insert_batch_with_retry ins items d w =
        ((int (length items), 0),
         w\<lparr>sink := k2,
           sink_calls := sink_calls w @ [map obj items, map obj items],
           sleeps := sleeps w @ [d]\<rparr>))
   \<and> (ins (sink (mx_env st)) (map obj items) = (Raised e0, k1) \<longrightarrow>
      sleeps (mx_env (flush_batch ins items st)) = sleeps (mx_env st) @ [60])
   \<and> (batch \<noteq> [] \<and> ins' (sink (us_env st')) batch = (Raised e, k) \<longrightarrow>
      send_batch ins' batch st' =
        st'\<lparr>total_batches := total_batches st' + 1,
            total_failed := total_failed st' + int (length batch),
            us_env := (us_env st')
              \<lparr>sink := k, sink_calls := sink_calls (us_env st') @ [batch],
               failure_log := failure_log (us_env st')
                              @ map (batch_entry e (total_batches st' + 1)) batch\<rparr>\<rparr>)"
proof (intro conjI impI)
  assume "ins (sink w) (map obj items) = (Raised e0, k1) \<and> ins k1 (map obj items) = (Raised e, k2)"
  then show "insert_batch_with_retry ins items d w =
        ((0, int (length items)),
         w\<lparr>sink := k2,
           sink_calls := sink_calls w @ [map obj items, map obj items],
           sleeps := sleeps w @ [d],
           failure_log := failure_log w @ map (make_error_info e) items\<rparr>)"
    using retry_both_raise[where ins=ins and w=w and items=items and d=d] by blast
next
  assume "ins (sink w) (map obj items) = (Raised e0, k1) \<and> ins k1 (map obj items) = (Completed fs, k2)"
  then show "insert_batch_with_retry ins items d w =
        ((int (length items), 0),
         w\<lparr>sink := k2,
           sink_calls := sink_calls w @ [map obj items, map obj items],
           sleeps := sleeps w @ [d]\<rparr>)"
    using retry_succeeds[where ins=ins and w=w and items=items and d=d] by blast
next
  assume "ins (sink (mx_env st)) (map obj items) = (Raised e0, k1)"
  then show "sleeps (mx_env (flush_batch ins items st)) = sleeps (mx_env st) @ [60]"
    by (simp add: flush_batch_def insert_batch_with_retry_unfold bulk_insert_def sleep_def
          log_entries_fold split: prod.splits outcome.splits)
next
  assume "batch \<noteq> [] \<and> ins' (sink (us_env st')) batch = (Raised e, k)"
  then show "send_batch ins' batch st' =
        st'\<lparr>total_batches := total_batches st' + 1,
            total_failed := total_failed st' + int (length batch),
            us_env := (us_env st')
              \<lparr>sink := k, sink_calls := sink_calls (us_env st') @ [batch],
               failure_log := failure_log (us_env st')
                              @ map (batch_entry e (total_batches st' + 1)) batch\<rparr>\<rparr>"
    using send_batch_raised[where ins=ins' and st=st' and batch=batch] by blast
qed

text \<open>The scenario of the specification: the sink raises on both attempts for a batch
  of five records. Then one where only the first attempt raises, one flush at a call
  site of \<open>process_document\<close>, a run of \<open>process_document\<close> against a sink that always
  raises (both batches are attempted, twice each), and \<open>send_batch\<close>.\<close>

theorem retry_once_then_log_witness:
  "fst (insert_batch_with_retry (raising ''timeout'') (map item_of [8, 8, 8, 8, 8]) 60 fresh_world)
     = (0, 5)
   \<and> map ei_error (failure_log (snd (insert_batch_with_retry (raising ''timeout'')
          (map item_of [8, 8, 8, 8, 8]) 60 fresh_world))) = [''timeout'', ''timeout'', ''timeout'', ''timeout'', ''timeout'']
   \<and> sleeps (snd (insert_batch_with_retry (raising ''timeout'')
          (map item_of [8, 8, 8, 8, 8]) 60 fresh_world)) = [60]
   \<and> length (sink_calls (snd (insert_batch_with_retry (raising ''timeout'')
          (map item_of [8, 8, 8, 8, 8]) 60 fresh_world))) = 2
   \<and> fst (insert_batch_with_retry (raising_first 1 ''timeout'') (map item_of [8, 8, 8, 8, 8]) 60
            fresh_world) = (5, 0)
   \<and> failure_log (snd (insert_batch_with_retry (raising_first 1 ''timeout'')
          (map item_of [8, 8, 8, 8, 8]) 60 fresh_world)) = []
   \<and> sleeps (mx_env (flush_batch (raising ''timeout'') (map item_of [8, 8, 8, 8, 8])
                        (mx_start fresh_world))) = [60]
   \<and> length (sink_calls (snd (process_document (raising ''timeout'') ''f.json''
                (doc_of [160000, 200000, 200000]) fresh_world))) = 4
   \<and> total_failed (send_batch (raising ''timeout'') [props_of 8] (us_initial fresh_world)) = 1
   \<and> map fc_batch_number (failure_log (us_env (send_batch (raising ''timeout'') [props_of 8]
          (us_initial fresh_world)))) = [1]"
proof -
  let ?items = "map item_of [8, 8, 8, 8, 8]"
  have h1: "raising ''timeout'' (sink fresh_world) (map obj ?items) = (Raised ''timeout'', 1)
            \<and> raising ''timeout'' 1 (map obj ?items) = (Raised ''timeout'', 2)"
    by (simp add: raising_def fresh_world_def)
  have h2: "raising_first 1 ''timeout'' (sink fresh_world) (map obj ?items) = (Raised ''timeout'', 1)
            \<and> raising_first 1 ''timeout'' 1 (map obj ?items) = (Completed [], 2)"
    by (simp add: raising_first_def fresh_world_def)
  have h3: "raising ''timeout'' (sink (mx_env (mx_start fresh_world))) (map obj ?items)
            = (Raised ''timeout'', 1)"
    by (simp add: raising_def fresh_world_def mx_start_def)
  have h4: "[props_of 8] \<noteq> []
            \<and> raising ''timeout'' (sink (us_env (us_initial fresh_world))) [props_of 8]
              = (Raised ''timeout'', 1)"
    by (simp add: raising_def fresh_world_def us_initial_def)
  note t1 = retry_once_then_log
      [where ins = "raising ''timeout''" and w = fresh_world and items = ?items and d = 60
         and ?e0.0 = "''timeout''" and e = "''timeout''" and ?k1.0 = 1 and ?k2.0 = 2
         and st = "mx_start fresh_world"
         and ins' = "raising ''timeout''" and batch = "[props_of 8]"
         and st' = "us_initial fresh_world" and k = 1]
  note t2 = retry_once_then_log
      [where ins = "raising_first 1 ''timeout''" and w = fresh_world and items = ?items and d = 60
         and ?e0.0 = "''timeout''" and fs = "[]" and ?k1.0 = 1 and ?k2.0 = 2]
  note both = t1[THEN conjunct1, THEN mp, OF h1]
  note second = t2[THEN conjunct2, THEN conjunct1, THEN mp, OF h2]
  note site = t1[THEN conjunct2, THEN conjunct2, THEN conjunct1, THEN mp, OF h3]
  note us = t1[THEN conjunct2, THEN conjunct2, THEN conjunct2, THEN mp, OF h4]
  have a: "fst (insert_batch_with_retry (raising ''timeout'') ?items 60 fresh_world) = (0, 5)"
    unfolding both by simp
  have b: "map ei_error (failure_log (snd (insert_batch_with_retry (raising ''timeout'')
          ?items 60 fresh_world))) = [''timeout'', ''timeout'', ''timeout'', ''timeout'', ''timeout'']"
    unfolding both by (simp add: fresh_world_def make_error_info_def)
  have c: "sleeps (snd (insert_batch_with_retry (raising ''timeout'') ?items 60 fresh_world)) = [60]"
    unfolding both by (simp add: fresh_world_def)
  have d: "length (sink_calls (snd (insert_batch_with_retry (raising ''timeout'')
          ?items 60 fresh_world))) = 2"
    unfolding both by (simp add: fresh_world_def)
  have e: "fst (insert_batch_with_retry (raising_first 1 ''timeout'') ?items 60 fresh_world) = (5, 0)"
    unfolding second by simp
  have f: "failure_log (snd (insert_batch_with_retry (raising_first 1 ''timeout'')
          ?items 60 fresh_world)) = []"
    unfolding second by (simp add: fresh_world_def)
  have g: "sleeps (mx_env (flush_batch (raising ''timeout'') ?items (mx_start fresh_world))) = [60]"
    unfolding site by (simp add: mx_start_def fresh_world_def)
  have h: "length (sink_calls (snd (process_document (raising ''timeout'') ''f.json''
                (doc_of [160000, 200000, 200000]) fresh_world))) = 4"
    by (simp add: mx_eval raising_def sleep_def log_entries_fold)
  have i: "total_failed (send_batch (raising ''timeout'') [props_of 8] (us_initial fresh_world)) = 1"
    unfolding us by (simp add: us_initial_def)
  have j: "map fc_batch_number (failure_log (us_env (send_batch (raising ''timeout'') [props_of 8]
          (us_initial fresh_world)))) = [1]"
    unfolding us by (simp add: us_initial_def fresh_world_def batch_entry_def)
  show ?thesis
    by (intro conjI) (rule a, rule b, rule c, rule d, rule e, rule f, rule g, rule h, rule i, rule j)
qed

section \<open>Rejected objects\<close>

text \<open>
  Claim C6, as stated, fails: \<open>send_batch\<close> of \<open>batchAddStateCollection.py\<close> never reads
  the list of rejected objects. When the sink completes and reports the second of two
  objects as rejected, both are counted as imported, none as failed, and nothing is
  logged.
\<close>

theorem send_batch_counts_rejected_as_imported:
  "total_chunks_imported
     (send_batch (rejecting [FailedObject ''vectorizer error'' (Some (props_of 16))])
        [props_of 8, props_of 16] (us_initial fresh_world)) = 2
   \<and> total_failed
     (send_batch (rejecting [FailedObject ''vectorizer error'' (Some (props_of 16))])
        [props_of 8, props_of 16] (us_initial fresh_world)) = 0
   \<and> failure_log (us_env
     (send_batch (rejecting [FailedObject ''vectorizer error'' (Some (props_of 16))])
        [props_of 8, props_of 16] (us_initial fresh_world))) = []"
  by (simp add: send_batch_def bulk_insert_def rejecting_def us_initial_def fresh_world_def Let_def)

text \<open>
  Claim C6, amended. In the older loader (\<open>send_batch_to_weaviate\<close>), when the insertion
  completes and the sink reports a non-empty list of rejected objects, the batch is
  handed to the sink once only, one entry per reported object is appended to the failure
  log with the batch number and the object's own message, the failed count grows by the
  number of reported objects and the imported count by the batch size less that number.
  \<open>send_batch\<close> of \<open>batchAddStateCollection.py\<close> does not look at the report: the whole
  batch is counted as imported and nothing is logged.
\<close>

theorem rejected_objects_logged_individually:
  "(batch \<noteq> [] \<and> fs \<noteq> [] \<and> ins (sink (ol_env st)) batch = (Completed fs, k) \<longrightarrow>
      send_batch_to_weaviate ins batch n st =
        Inr (st\<lparr>failed := failed st + int (length fs),
                imported := imported st + (int (length batch) - int (length fs)),
                ol_env := (ol_env st)
                  \<lparr>sink := k, sink_calls := sink_calls (ol_env st) @ [batch],
                   failure_log := failure_log (ol_env st) @ map (rejected_entry n) fs\<rparr>\<rparr>))
   \<and> (batch' \<noteq> [] \<and> ins' (sink (us_env st')) batch' = (Completed fs', k') \<longrightarrow>
      send_batch ins' batch' st' =
        st'\<lparr>total_batches := total_batches st' + 1,
            total_chunks_imported := total_chunks_imported st' + int (length batch'),
            us_env := (us_env st')
              \<lparr>sink := k', sink_calls := sink_calls (us_env st') @ [batch']\<rparr>\<rparr>)"
proof (intro conjI impI)
  assume "batch \<noteq> [] \<and> fs \<noteq> [] \<and> ins (sink (ol_env st)) batch = (Completed fs, k)"
  then show "send_batch_to_weaviate ins batch n st =
        Inr (st\<lparr>failed := failed st + int (length fs),
                imported := imported st + (int (length batch) - int (length fs)),
                ol_env := (ol_env st)
                  \<lparr>sink := k, sink_calls := sink_calls (ol_env st) @ [batch],
                   failure_log := failure_log (ol_env st) @ map (rejected_entry n) fs\<rparr>\<rparr>)"
    using send_to_weaviate_rejected[where ins=ins and st=st and batch=batch and fs=fs and n=n]
    by blast
next
  assume "batch' \<noteq> [] \<and> ins' (sink (us_env st')) batch' = (Completed fs', k')"
  then show "send_batch ins' batch' st' =
        st'\<lparr>total_batches := total_batches st' + 1,
            total_chunks_imported := total_chunks_imported st' + int (length batch'),
            us_env := (us_env st')
              \<lparr>sink := k', sink_calls := sink_calls (us_env st') @ [batch']\<rparr>\<rparr>"
    using send_batch_completed[where ins=ins' and st=st' and batch=batch'] by blast
qed

theorem rejected_objects_logged_individually_witness:
  "imported (final_state (send_batch_to_weaviate
       (rejecting [FailedObject ''vectorizer error'' (Some (props_of 16))])
       [props_of 8, props_of 16, props_of 24] 7 (loader_initial fresh_world))) = 2
   \<and> failed (final_state (send_batch_to_weaviate
       (rejecting [FailedObject ''vectorizer error'' (Some (props_of 16))])
       [props_of 8, props_of 16, props_of 24] 7 (loader_initial fresh_world))) = 1
   \<and> failure_log (ol_env (final_state (send_batch_to_weaviate
       (rejecting [FailedObject ''vectorizer error'' (Some (props_of 16))])
       [props_of 8, props_of 16, props_of 24] 7 (loader_initial fresh_world))))
     = [\<lparr>fc_error = ''vectorizer error'', fc_properties = Some (props_of 16),
         fc_batch_number = 7\<rparr>]
   \<and> sink_calls (ol_env (final_state (send_batch_to_weaviate
       (rejecting [FailedObject ''vectorizer error'' (Some (props_of 16))])
       [props_of 8, props_of 16, props_of 24] 7 (loader_initial fresh_world))))
     = [[props_of 8, props_of 16, props_of 24]]
   \<and> total_chunks_imported
     (send_batch (rejecting [FailedObject ''vectorizer error'' (Some (props_of 16))])
        [props_of 8, props_of 16] (us_initial fresh_world)) = 2"
proof -
  let ?fs = "[FailedObject ''vectorizer error'' (Some (props_of 16))]"
  let ?b = "[props_of 8, props_of 16, props_of 24]"
  have h1: "?b \<noteq> [] \<and> ?fs \<noteq> []
            \<and> rejecting ?fs (sink (ol_env (loader_initial fresh_world))) ?b = (Completed ?fs, 1)"
    by (simp add: rejecting_def loader_initial_def fresh_world_def)
  have h2: "[props_of 8, props_of 16] \<noteq> []
            \<and> rejecting ?fs (sink (us_env (us_initial fresh_world))) [props_of 8, props_of 16]
              = (Completed ?fs, 1)"
    by (simp add: rejecting_def us_initial_def fresh_world_def)
  note t = rejected_objects_logged_individually
      [where ins = "rejecting ?fs" and batch = ?b and fs = ?fs and n = 7
         and st = "loader_initial fresh_world" and k = 1
         and ins' = "rejecting ?fs" and batch' = "[props_of 8, props_of 16]" and fs' = ?fs
         and st' = "us_initial fresh_world" and k' = 1]
  note ol = t[THEN conjunct1, THEN mp, OF h1]
  note us = t[THEN conjunct2, THEN mp, OF h2]
  have a: "imported (final_state (send_batch_to_weaviate (rejecting ?fs) ?b 7
             (loader_initial fresh_world))) = 2"
    unfolding ol by (simp add: final_state_def loader_initial_def)
  have b: "failed (final_state (send_batch_to_weaviate (rejecting ?fs) ?b 7
             (loader_initial fresh_world))) = 1"
    unfolding ol by (simp add: final_state_def loader_initial_def)
  have c: "failure_log (ol_env (final_state (send_batch_to_weaviate (rejecting ?fs) ?b 7
             (loader_initial fresh_world))))
     = [\<lparr>fc_error = ''vectorizer error'', fc_properties = Some (props_of 16),
         fc_batch_number = 7\<rparr>]"
    unfolding ol by (simp add: final_state_def loader_initial_def fresh_world_def rejected_entry_def)
  have d: "sink_calls (ol_env (final_state (send_batch_to_weaviate (rejecting ?fs) ?b 7
             (loader_initial fresh_world)))) = [?b]"
    unfolding ol by (simp add: final_state_def loader_initial_def fresh_world_def)
  have e: "total_chunks_imported (send_batch (rejecting ?fs) [props_of 8, props_of 16]
             (us_initial fresh_world)) = 2"
    unfolding us by (simp add: us_initial_def)
  show ?thesis
    by (intro conjI) (rule a, rule b, rule c, rule d, rule e)
qed

section \<open>The outcomes met by a run of the older loader\<close>

lemma outcomes_append:
  "outcomes ins k (bs @ [b]) = outcomes ins k bs @ [fst (ins (sink_after ins k bs) b)]"
  by (induction bs arbitrary: k) simp_all

lemma sink_after_append:
  "sink_after ins k (bs @ [b]) = snd (ins (sink_after ins k bs) b)"
  by (induction bs arbitrary: k) simp_all

lemma replay_ok_refl: "replay_ok ins w w"
  by (simp add: replay_ok_def)

lemma replay_ok_call:
  assumes "replay_ok ins w0 w" "ins (sink w) batch = (out, k)" "survived out"
    and "sink_calls w' = sink_calls w @ [batch]" "sink w' = k"
  shows "replay_ok ins w0 w'"
proof -
  from assms(1) obtain new where n: "sink_calls w = sink_calls w0 @ new"
    "sink w = sink_after ins (sink w0) new" "list_all survived (outcomes ins (sink w0) new)"
    unfolding replay_ok_def by blast
  have "sink_calls w' = sink_calls w0 @ (new @ [batch])" using assms(4) n(1) by simp
  moreover have "sink w' = sink_after ins (sink w0) (new @ [batch])"
    using assms(2,5) n(2) by (simp add: sink_after_append)
  moreover have "list_all survived (outcomes ins (sink w0) (new @ [batch]))"
    using assms(2,3) n(2,3) by (simp add: outcomes_append)
  ultimately show ?thesis unfolding replay_ok_def by blast
qed

lemma replay_stopped_call:
  assumes "replay_ok ins w0 w" "ins (sink w) batch = (Raised msg, k)" "is_disk_full msg"
    and "sink_calls w' = sink_calls w @ [batch]"
  shows "replay_stopped ins w0 msg w'"
proof -
  from assms(1) obtain new where n: "sink_calls w = sink_calls w0 @ new"
    "sink w = sink_after ins (sink w0) new" "list_all survived (outcomes ins (sink w0) new)"
    unfolding replay_ok_def by blast
  have "sink_calls w' = sink_calls w0 @ new @ [batch]" using assms(4) n(1) by simp
  moreover have "fst (ins (sink_after ins (sink w0) new) batch) = Raised msg"
    using assms(2) n(2) by simp
  ultimately show ?thesis unfolding replay_stopped_def using n(3) assms(3) by blast
qed

lemma send_to_weaviate_replay:
  assumes "replay_ok ins w0 (ol_env st)"
  shows "replay_res ins w0 (send_batch_to_weaviate ins batch n st)"
proof (cases "batch = []")
  case True
  then show ?thesis using assms by (simp add: send_to_weaviate_empty replay_res_def)
next
  case ne: False
  obtain out k where i: "ins (sink (ol_env st)) batch = (out, k)"
    by (cases "ins (sink (ol_env st)) batch")
  show ?thesis
  proof (cases out)
    case (Raised m)
    show ?thesis
    proof (cases "is_disk_full m")
      case True
      have "replay_stopped ins w0 m ((ol_env st)
              \<lparr>sink := k, sink_calls := sink_calls (ol_env st) @ [batch]\<rparr>)"
        by (rule replay_stopped_call[OF assms i[unfolded Raised] True]) simp
      then show ?thesis
        unfolding send_to_weaviate_fatal[where ins=ins and st=st and n=n, OF ne i[unfolded Raised] True]
        by (simp add: replay_res_def)
    next
      case False
      have "replay_ok ins w0 ((ol_env st)
              \<lparr>sink := k, sink_calls := sink_calls (ol_env st) @ [batch],
               failure_log := failure_log (ol_env st) @ map (batch_entry m n) batch\<rparr>)"
        by (rule replay_ok_call[OF assms i]) (simp_all add: Raised survived_def fatal_def False)
      then show ?thesis
        unfolding send_to_weaviate_transient[where ins=ins and st=st and n=n, OF ne i[unfolded Raised] False]
        by (simp add: replay_res_def)
    qed
  next
    case (Completed fs)
    show ?thesis
    proof (cases "fs = []")
      case True
      have "replay_ok ins w0 ((ol_env st)
              \<lparr>sink := k, sink_calls := sink_calls (ol_env st) @ [batch]\<rparr>)"
        by (rule replay_ok_call[OF assms i]) (simp_all add: Completed survived_def fatal_def)
      then show ?thesis
        unfolding send_to_weaviate_accepted[where ins=ins and st=st and n=n, OF ne i[unfolded Completed True]]
        by (simp add: replay_res_def)
    next
      case False
      have "replay_ok ins w0 ((ol_env st)
              \<lparr>sink := k, sink_calls := sink_calls (ol_env st) @ [batch],
               failure_log := failure_log (ol_env st) @ map (rejected_entry n) fs\<rparr>)"
        by (rule replay_ok_call[OF assms i]) (simp_all add: Completed survived_def fatal_def)
      then show ?thesis
        unfolding send_to_weaviate_rejected[where ins=ins and st=st and n=n, OF ne False i[unfolded Completed]]
        by (simp add: replay_res_def)
    qed
  qed
qed

lemma replay_res_bind:
  assumes "replay_res ins w0 r"
    and "\<And>st. r = Inr st \<Longrightarrow> replay_ok ins w0 (ol_env st) \<Longrightarrow> replay_res ins w0 (f st)"
  shows "replay_res ins w0 (case r of Inl err \<Rightarrow> Inl err | Inr st \<Rightarrow> f st)"
proof (cases r)
  case (Inl err)
  then show ?thesis using assms(1) by simp
next
  case (Inr st)
  then have "replay_ok ins w0 (ol_env st)" using assms(1) by (simp add: replay_res_def)
  from assms(2)[OF Inr this] show ?thesis using Inr by simp
qed

lemma replay_res_Inr: "replay_ok ins w0 (ol_env st) \<Longrightarrow> replay_res ins w0 (Inr st)"
  by (simp add: replay_res_def)

lemma send_pending_replay:
  assumes "replay_ok ins w0 (ol_env st)"
  shows "replay_res ins w0 (send_pending ins st)"
  unfolding send_pending_def Let_def
  by (rule replay_res_bind, rule send_to_weaviate_replay)
     (simp_all add: assms replay_res_def)

lemma handle_oversized_replay:
  assumes "replay_ok ins w0 (ol_env st)"
  shows "replay_res ins w0 (handle_oversized_chunk ins props st)"
  unfolding handle_oversized_chunk_def Let_def
  by (rule send_to_weaviate_replay) (simp add: assms)

lemma line_chunk_replay:
  assumes "replay_ok ins w0 (ol_env st)"
  shows "replay_res ins w0 (process_line_chunk ins art fa doc m st ch)"
proof -
  define sp where "sp = st\<lparr>processed := processed st + 1\<rparr>"
  have ok: "replay_ok ins w0 (ol_env sp)" using assms by (simp add: sp_def)
  have pend: "replay_res ins w0 (if c then send_pending ins sp else Inr sp)" for c
    using send_pending_replay[OF ok] ok by (simp add: replay_res_def)
  show ?thesis
    unfolding process_line_chunk_def Let_def sp_def[symmetric]
  proof (cases "approx_tokens (content (chunk_properties ch art fa doc)) > m")
    case True
    show "replay_res ins w0
     (if m < approx_tokens (content (chunk_properties ch art fa doc))
      then case if objects sp \<noteq> [] then send_pending ins sp else Inr sp of
             Inl err \<Rightarrow> Inl err
           | Inr st1 \<Rightarrow> handle_oversized_chunk ins (chunk_properties ch art fa doc) st1
      else case if should_send_batch (tokens sp)
                     (approx_tokens (content (chunk_properties ch art fa doc))) m
                then send_pending ins sp else Inr sp of
             Inl err \<Rightarrow> Inl err
           | Inr st1 \<Rightarrow> Inr (st1\<lparr>objects := objects st1 @ [chunk_properties ch art fa doc],
                  tokens := tokens st1 + approx_tokens (content (chunk_properties ch art fa doc))\<rparr>))"
      unfolding if_P[OF True]
      by (intro replay_res_bind pend handle_oversized_replay)
  next
    case False
    show "replay_res ins w0
     (if m < approx_tokens (content (chunk_properties ch art fa doc))
      then case if objects sp \<noteq> [] then send_pending ins sp else Inr sp of
             Inl err \<Rightarrow> Inl err
           | Inr st1 \<Rightarrow> handle_oversized_chunk ins (chunk_properties ch art fa doc) st1
      else case if should_send_batch (tokens sp)
                     (approx_tokens (content (chunk_properties ch art fa doc))) m
                then send_pending ins sp else Inr sp of
             Inl err \<Rightarrow> Inl err
           | Inr st1 \<Rightarrow> Inr (st1\<lparr>objects := objects st1 @ [chunk_properties ch art fa doc],
                  tokens := tokens st1 + approx_tokens (content (chunk_properties ch art fa doc))\<rparr>))"
      unfolding if_not_P[OF False]
      by (rule replay_res_bind, rule pend) (simp add: replay_res_def)
  qed
qed

lemma line_chunks_replay:
  assumes "replay_ok ins w0 (ol_env st)"
  shows "replay_res ins w0 (process_line_chunks ins art fa doc m st chs)"
  using assms
proof (induction chs arbitrary: st)
  case Nil
  then show ?case by (simp add: replay_res_def)
next
  case (Cons c cs)
  show ?case
    unfolding process_line_chunks.simps
    by (rule replay_res_bind, rule line_chunk_replay[OF Cons.prems]) (rule Cons.IH)
qed

lemma chunks_from_line_replay:
  assumes "replay_ok ins w0 (ol_env st)"
  shows "replay_res ins w0 (process_chunks_from_line ins data doc m st)"
proof (cases "extract_parent_info (line_fields data)")
  case (Inl e)
  from extract_parent_info_error[OF Inl] show ?thesis
    using assms by (auto simp: process_chunks_from_line_def Inl replay_res_def)
next
  case (Inr p)
  obtain art fa where p: "p = (art, fa)" by (cases p)
  show ?thesis
    using line_chunks_replay[OF assms]
    by (simp add: process_chunks_from_line_def Inr p)
qed

lemma jsonl_lines_replay:
  assumes "replay_ok ins w0 (ol_env st)"
  shows "replay_res ins w0 (process_jsonl_lines ins doc m st lines)"
  using assms
proof (induction ins doc m st lines rule: process_jsonl_lines.induct)
  case (1 ins doc max_tokens st)
  then show ?case by (simp add: replay_res_def)
next
  case (2 ins doc max_tokens st rest)
  then show ?case by simp
next
  case (3 ins doc max_tokens st data rest)
  show ?case
    unfolding process_jsonl_lines.simps
    by (rule replay_res_bind, rule chunks_from_line_replay[OF "3.prems"]) (rule "3.IH")
qed

lemma jsonl_file_replay:
  "replay_res ins w (process_jsonl_file ins lines doc m (w :: 'k us_world))"
  unfolding process_jsonl_file_def Let_def
proof (rule replay_res_bind)
  show "replay_res ins w (process_jsonl_lines ins doc m (loader_initial w) lines)"
    by (rule jsonl_lines_replay) (simp add: loader_initial_def replay_ok_refl)
next
  fix st :: "'k loader_state"
  assume ok: "replay_ok ins w (ol_env st)"
  show "replay_res ins w
          (if objects st \<noteq> []
           then send_batch_to_weaviate ins (objects (st\<lparr>batches := batches st + 1\<rparr>))
                  (batches (st\<lparr>batches := batches st + 1\<rparr>)) (st\<lparr>batches := batches st + 1\<rparr>)
           else Inr st)"
    using send_to_weaviate_replay[where st = "st\<lparr>batches := batches st + 1\<rparr>" and ins = ins
            and ?w0.0 = w and batch = "objects st" and n = "batches st + 1"] ok
    by (simp add: replay_res_def)
qed

lemma replay_ok_outcomes:
  assumes "replay_ok ins w0 w"
  shows "list_all survived (outcomes ins (sink w0) (calls_since w0 w))"
  using assms by (auto simp: replay_ok_def calls_since_def)

lemma replay_stopped_outcomes:
  assumes "replay_stopped ins w0 msg w"
  shows "\<exists>outs. outcomes ins (sink w0) (calls_since w0 w) = outs @ [Raised msg]
              \<and> list_all survived outs \<and> is_disk_full msg"
proof -
  from assms obtain new b where n: "sink_calls w = sink_calls w0 @ new @ [b]"
    "list_all survived (outcomes ins (sink w0) new)"
    "fst (ins (sink_after ins (sink w0) new) b) = Raised msg" "is_disk_full msg"
    unfolding replay_stopped_def by blast
  have "calls_since w0 w = new @ [b]" using n(1) by (simp add: calls_since_def)
  then have "outcomes ins (sink w0) (calls_since w0 w) = outcomes ins (sink w0) new @ [Raised msg]"
    using n(3) by (simp add: outcomes_append)
  then show ?thesis using n(2,4) by blast
qed

lemma survived_last:
  assumes "list_all survived outs" "outs \<noteq> []" "last outs = Raised msg" "is_disk_full msg"
  shows False
proof -
  have "last outs \<in> set outs" using assms(2) by simp
  then have "survived (last outs)" using assms(1) by (simp add: list_all_iff)
  then show False using assms(3,4) by (simp add: survived_def fatal_def)
qed

lemma list_all_butlast: "list_all P xs \<Longrightarrow> list_all P (butlast xs)"
  by (auto simp: list_all_iff dest: in_set_butlastD)

lemma replay_res_fatal_last:
  fixes r :: "(py_error \<times> 'k loader_state) + 'k loader_state"
  assumes "replay_res ins w0 r"
  shows "list_all survived (butlast (outcomes ins (sink w0) (calls_since w0 (ol_env (final_state r)))))"
    and "outcomes ins (sink w0) (calls_since w0 (ol_env (final_state r))) \<noteq> []
         \<Longrightarrow> last (outcomes ins (sink w0) (calls_since w0 (ol_env (final_state r)))) = Raised msg
         \<Longrightarrow> is_disk_full msg \<Longrightarrow> r = Inl (SinkError msg, final_state r)"
proof -
  let ?outs = "outcomes ins (sink w0) (calls_since w0 (ol_env (final_state r)))"
  consider (ok) "replay_ok ins w0 (ol_env (final_state r))"
    | (stopped) m where "r = Inl (SinkError m, final_state r)"
        "replay_stopped ins w0 m (ol_env (final_state r))"
  proof (cases r)
    case (Inr st)
    then show ?thesis using assms ok by (simp add: replay_res_def final_state_def)
  next
    case (Inl err)
    obtain e st where err: "err = (e, st)" by (cases err)
    show ?thesis
    proof (cases e)
      case (SinkError m)
      then show ?thesis using assms stopped[of m] Inl err
        by (simp add: replay_res_def final_state_def)
    qed (use assms ok Inl err in \<open>simp_all add: replay_res_def final_state_def\<close>)
  qed
  note cases = this
  show "list_all survived (butlast ?outs)"
  proof (cases rule: cases)
    case ok
    then show ?thesis by (intro list_all_butlast replay_ok_outcomes)
  next
    case (stopped m)
    from replay_stopped_outcomes[OF stopped(2)] show ?thesis by auto
  qed
  show "r = Inl (SinkError msg, final_state r)"
    if "?outs \<noteq> []" "last ?outs = Raised msg" "is_disk_full msg"
  proof (cases rule: cases)
    case ok
    from survived_last[OF replay_ok_outcomes[OF ok] that] show ?thesis ..
  next
    case (stopped m)
    from replay_stopped_outcomes[OF stopped(2)] that(2) have "m = msg" by auto
    then show ?thesis using stopped(1) by simp
  qed
qed

section \<open>Fatal errors\<close>

text \<open>
  Claim C5, as stated, fails: \<open>batchAddStateCollection.py\<close> has no test of the message.
  Against a sink that raises a read-only error on every call, the run over two batches
  ends normally: both batches were handed to the sink and both records are counted as
  failed and logged.
\<close>

theorem send_batch_continues_after_read_only:
  "is_disk_full ''Store is READ-ONLY''
   \<and> batch_add_state_collection (raising ''Store is READ-ONLY'') [line_of [400000, 400000]]
        fresh_world
     = Inr (final_state (batch_add_state_collection (raising ''Store is READ-ONLY'')
              [line_of [400000, 400000]] fresh_world))
   \<and> map length (sink_calls (us_env (final_state (batch_add_state_collection
         (raising ''Store is READ-ONLY'') [line_of [400000, 400000]] fresh_world)))) = [1, 1]
   \<and> total_failed (final_state (batch_add_state_collection
         (raising ''Store is READ-ONLY'') [line_of [400000, 400000]] fresh_world)) = 2
   \<and> length (failure_log (us_env (final_state (batch_add_state_collection
         (raising ''Store is READ-ONLY'') [line_of [400000, 400000]] fresh_world)))) = 2"
proof -
  let ?run = "batch_add_state_collection (raising ''Store is READ-ONLY'')
                [line_of [400000, 400000]] fresh_world"
  have a: "?run = Inr (final_state ?run)"
    by (simp add: us_eval raising_def log_entries_fold)
  have b: "map length (sink_calls (us_env (final_state ?run))) = [1, 1]"
    by (simp add: us_eval raising_def log_entries_fold)
  have c: "total_failed (final_state ?run) = 2"
    by (simp add: us_eval raising_def log_entries_fold)
  have d: "length (failure_log (us_env (final_state ?run))) = 2"
    by (simp add: us_eval raising_def log_entries_fold)
  show ?thesis
    by (intro conjI) (rule is_disk_full_read_only, rule a, rule b, rule c, rule d)
qed

text \<open>
  Claim C5, amended. In the older loader an exception of the bulk insert whose message,
  in lower case, contains \<open>disk usage too high\<close> or \<open>read-only\<close> is raised again by
  \<open>send_batch_to_weaviate\<close>, after the batch has been added to the failed count and
  without an entry in the failure log. Nothing catches it. In every run of
  \<open>process_jsonl_file\<close>, whatever the input and the sink, no call of the sink follows a
  call that met such an exception, and when the last call met one the run ends with that
  exception; once the loop over the lines has stopped with an exception, the run has the
  same result whatever lines follow; and when a run ends with the sink's exception the
  last batch handed to the sink is the one on which it raised, the sink not having been
  called since. \<open>send_batch\<close> of \<open>batchAddStateCollection.py\<close> treats every exception
  alike, whatever its message: it logs the batch and returns.
\<close>

theorem read_only_error_aborts_older_loader:
  "(batch \<noteq> [] \<and> ins (sink (ol_env st)) batch = (Raised msg, k) \<and> is_disk_full msg \<longrightarrow>
      send_batch_to_weaviate ins batch n st =
        Inl (SinkError msg,
             st\<lparr>failed := failed st + int (length batch),
                ol_env := (ol_env st)
                  \<lparr>sink := k, sink_calls := sink_calls (ol_env st) @ [batch]\<rparr>\<rparr>))
   \<and> list_all survived
        (butlast (outcomes ins (sink w)
           (calls_since w (ol_env (final_state (process_jsonl_file ins lines doc m w))))))
   \<and> (outcomes ins (sink w)
         (calls_since w (ol_env (final_state (process_jsonl_file ins lines doc m w)))) \<noteq> []
       \<and> last (outcomes ins (sink w)
           (calls_since w (ol_env (final_state (process_jsonl_file ins lines doc m w)))))
         = Raised msg'
       \<and> is_disk_full msg' \<longrightarrow>
      process_jsonl_file ins lines doc m w
        = Inl (SinkError msg', final_state (process_jsonl_file ins lines doc m w)))
   \<and> (process_jsonl_lines ins doc m (loader_initial w) pre = Inl err \<longrightarrow>
      process_jsonl_file ins (pre @ rest) doc m w = Inl err)
   \<and> (process_jsonl_file ins lines doc m w = Inl (SinkError msg', st2) \<longrightarrow>
      stopped_at_raise ins msg' st2)
   \<and> (batch' \<noteq> [] \<and> ins' (sink (us_env st')) batch' = (Raised msg, k') \<longrightarrow>
      send_batch ins' batch' st' =
        st'\<lparr>total_batches := total_batches st' + 1,
            total_failed := total_failed st' + int (length batch'),
            us_env := (us_env st')
              \<lparr>sink := k', sink_calls := sink_calls (us_env st') @ [batch'],
               failure_log := failure_log (us_env st')
                              @ map (batch_entry msg (total_batches st' + 1)) batch'\<rparr>\<rparr>)"
proof (intro conjI impI)
  assume "batch \<noteq> [] \<and> ins (sink (ol_env st)) batch = (Raised msg, k) \<and> is_disk_full msg"
  then show "send_batch_to_weaviate ins batch n st =
        Inl (SinkError msg,
             st\<lparr>failed := failed st + int (length batch),
                ol_env := (ol_env st)
                  \<lparr>sink := k, sink_calls := sink_calls (ol_env st) @ [batch]\<rparr>\<rparr>)"
    using send_to_weaviate_fatal[where ins=ins and st=st and batch=batch and msg=msg and n=n]
    by blast
next
  show "list_all survived
        (butlast (outcomes ins (sink w)
           (calls_since w (ol_env (final_state (process_jsonl_file ins lines doc m w))))))"
    by (rule replay_res_fatal_last(1)[OF jsonl_file_replay])
next
  assume a: "outcomes ins (sink w)
         (calls_since w (ol_env (final_state (process_jsonl_file ins lines doc m w)))) \<noteq> []
       \<and> last (outcomes ins (sink w)
           (calls_since w (ol_env (final_state (process_jsonl_file ins lines doc m w)))))
         = Raised msg'
       \<and> is_disk_full msg'"
  show "process_jsonl_file ins lines doc m w
        = Inl (SinkError msg', final_state (process_jsonl_file ins lines doc m w))"
    by (rule replay_res_fatal_last(2)[OF jsonl_file_replay])
       (rule a[THEN conjunct1], rule a[THEN conjunct2, THEN conjunct1],
        rule a[THEN conjunct2, THEN conjunct2])
next
  assume "process_jsonl_lines ins doc m (loader_initial w) pre = Inl err"
  then show "process_jsonl_file ins (pre @ rest) doc m w = Inl err"
    by (simp add: process_jsonl_file_def jsonl_lines_append)
next
  assume "process_jsonl_file ins lines doc m w = Inl (SinkError msg', st2)"
  then have "stopped_at_raise ins msg' st2" by (rule jsonl_file_stops)
  then show "is_disk_full msg'" "sink_calls (ol_env st2) \<noteq> []"
    "\<exists>k. ins k (last (sink_calls (ol_env st2))) = (Raised msg', sink (ol_env st2))"
    by blast+
next
  assume "batch' \<noteq> [] \<and> ins' (sink (us_env st')) batch' = (Raised msg, k')"
  then show "send_batch ins' batch' st' =
        st'\<lparr>total_batches := total_batches st' + 1,
            total_failed := total_failed st' + int (length batch'),
            us_env := (us_env st')
              \<lparr>sink := k', sink_calls := sink_calls (us_env st') @ [batch'],
               failure_log := failure_log (us_env st')
                              @ map (batch_entry msg (total_batches st' + 1)) batch'\<rparr>\<rparr>"
    using send_batch_raised[where ins=ins' and st=st' and batch=batch'] by blast
qed

text \<open>A sink that accepts the first batch and then raises the read-only error: the
  run over three records of weight 100000 stops at the second batch; the third record
  and the next line are never sent.\<close>

theorem read_only_error_aborts_older_loader_witness:
  "process_jsonl_file (raising_from 1 ''Store is READ-ONLY'')
       ([line_of [400000, 400000, 400000]] @ [line_of [8]]) ''doc'' 136000 fresh_world
     = Inl (SinkError ''Store is READ-ONLY'',
            final_state (process_jsonl_lines (raising_from 1 ''Store is READ-ONLY'') ''doc'' 136000
                           (loader_initial fresh_world) [line_of [400000, 400000, 400000]]))
   \<and> outcomes (raising_from 1 ''Store is READ-ONLY'') (sink (fresh_world :: nat us_world))
        (calls_since fresh_world (ol_env (final_state
           (process_jsonl_file (raising_from 1 ''Store is READ-ONLY'')
              ([line_of [400000, 400000, 400000]] @ [line_of [8]]) ''doc'' 136000 fresh_world))))
     = [Completed [], Raised ''Store is READ-ONLY'']
   \<and> process_jsonl_file (raising_from 1 ''Store is READ-ONLY'')
       ([line_of [400000, 400000, 400000]] @ [line_of [8]]) ''doc'' 136000 fresh_world
     = Inl (SinkError ''Store is READ-ONLY'',
            final_state (process_jsonl_file (raising_from 1 ''Store is READ-ONLY'')
              ([line_of [400000, 400000, 400000]] @ [line_of [8]]) ''doc'' 136000 fresh_world))
   \<and> list_all survived (butlast (outcomes (raising_from 1 ''Store is READ-ONLY'') (sink (fresh_world :: nat us_world))
        (calls_since fresh_world (ol_env (final_state
           (process_jsonl_file (raising_from 1 ''Store is READ-ONLY'')
              ([line_of [400000, 400000, 400000]] @ [line_of [8]]) ''doc'' 136000 fresh_world))))))
   \<and> map length (sink_calls (ol_env
         (final_state (process_jsonl_lines (raising_from 1 ''Store is READ-ONLY'') ''doc'' 136000
                           (loader_initial fresh_world) [line_of [400000, 400000, 400000]]))))
     = [1, 1]
   \<and> sink (ol_env
         (final_state (process_jsonl_lines (raising_from 1 ''Store is READ-ONLY'') ''doc'' 136000
                           (loader_initial fresh_world) [line_of [400000, 400000, 400000]]))) = 2
   \<and> failure_log (ol_env
         (final_state (process_jsonl_lines (raising_from 1 ''Store is READ-ONLY'') ''doc'' 136000
                           (loader_initial fresh_world) [line_of [400000, 400000, 400000]]))) = []
   \<and> is_disk_full ''Store is READ-ONLY''
   \<and> sink_calls (ol_env
         (final_state (process_jsonl_lines (raising_from 1 ''Store is READ-ONLY'') ''doc'' 136000
                           (loader_initial fresh_world) [line_of [400000, 400000, 400000]]))) \<noteq> []
   \<and> failed (final_state (send_batch_to_weaviate (raising ''Store is READ-ONLY'') [props_of 8] 1
                (loader_initial fresh_world))) = 1
   \<and> length (failure_log (us_env (send_batch (raising ''Store is READ-ONLY'') [props_of 8]
                (us_initial fresh_world)))) = 1"
proof -
  let ?msg = "''Store is READ-ONLY''"
  let ?ins = "raising_from 1 ?msg :: (nat, properties) sink_fn"
  let ?pre = "[line_of [400000, 400000, 400000]]"
  let ?loop = "process_jsonl_lines ?ins ''doc'' 136000 (loader_initial fresh_world) ?pre"
  let ?file = "process_jsonl_file ?ins (?pre @ [line_of [8]]) ''doc'' 136000 fresh_world"
  let ?outs = "outcomes ?ins (sink (fresh_world :: nat us_world)) (calls_since fresh_world (ol_env (final_state ?file)))"
  have stop: "?loop = Inl (SinkError ?msg, final_state ?loop)"
    by (simp add: ol_eval raising_from_def is_disk_full_read_only)
  have outs: "?outs = [Completed [], Raised ?msg]"
    by (simp add: ol_eval raising_from_def is_disk_full_read_only)
  have h1: "[props_of 8] \<noteq> []
            \<and> raising ?msg (sink (ol_env (loader_initial fresh_world))) [props_of 8]
                = (Raised ?msg, 1)
            \<and> is_disk_full ?msg"
    by (simp add: raising_def loader_initial_def fresh_world_def is_disk_full_read_only)
  have h2: "?outs \<noteq> [] \<and> last ?outs = Raised ?msg \<and> is_disk_full ?msg"
    unfolding outs by (simp add: is_disk_full_read_only)
  have h4: "[props_of 8] \<noteq> []
            \<and> raising ?msg (sink (us_env (us_initial fresh_world))) [props_of 8] = (Raised ?msg, 1)"
    by (simp add: raising_def us_initial_def fresh_world_def)
  note t1 = read_only_error_aborts_older_loader
      [where ins = "raising ?msg" and batch = "[props_of 8]" and st = "loader_initial fresh_world"
         and msg = ?msg and k = 1 and n = 1
         and ins' = "raising ?msg" and batch' = "[props_of 8]" and st' = "us_initial fresh_world"
         and k' = 1]
  note t2 = read_only_error_aborts_older_loader
      [where ins = ?ins and doc = "''doc''" and m = 136000 and w = fresh_world and pre = ?pre
         and rest = "[line_of [8]]" and err = "(SinkError ?msg, final_state ?loop)"
         and lines = "?pre @ [line_of [8]]" and msg' = ?msg and ?st2.0 = "final_state ?loop"]
  note fatal = t1[THEN conjunct1, THEN mp, OF h1]
  note before = t2[THEN conjunct2, THEN conjunct1]
  note aborted = t2[THEN conjunct2, THEN conjunct2, THEN conjunct1, THEN mp, OF h2]
  note whole = t2[THEN conjunct2, THEN conjunct2, THEN conjunct2, THEN conjunct1, THEN mp, OF stop]
  note last_call = t2[THEN conjunct2, THEN conjunct2, THEN conjunct2, THEN conjunct2,
                      THEN conjunct1, THEN mp, OF whole]
  note us = t1[THEN conjunct2, THEN conjunct2, THEN conjunct2, THEN conjunct2, THEN conjunct2,
               THEN mp, OF h4]
  have b: "map length (sink_calls (ol_env (final_state ?loop))) = [1, 1]"
    by (simp add: ol_eval raising_from_def is_disk_full_read_only)
  have c: "sink (ol_env (final_state ?loop)) = 2"
    by (simp add: ol_eval raising_from_def is_disk_full_read_only)
  have d: "failure_log (ol_env (final_state ?loop)) = []"
    by (simp add: ol_eval raising_from_def is_disk_full_read_only)
  have e: "sink_calls (ol_env (final_state ?loop)) \<noteq> []"
    using last_call by blast
  have f: "failed (final_state (send_batch_to_weaviate (raising ?msg) [props_of 8] 1
                (loader_initial fresh_world))) = 1"
    unfolding fatal by (simp add: final_state_def loader_initial_def)
  have g: "length (failure_log (us_env (send_batch (raising ?msg) [props_of 8]
                (us_initial fresh_world)))) = 1"
    unfolding us by (simp add: us_initial_def fresh_world_def)
  show ?thesis
    by (intro conjI)
       (rule whole, rule outs, rule aborted, rule before, rule b, rule c, rule d,
        rule is_disk_full_read_only, rule e, rule f, rule g)
qed

section \<open>The two-phase loaders\<close>

lemma add_article_store:
  "articles_added (snd (add_article gen props s)) = articles_added s @ [(fst (add_article gen props s), props)]"
  "chunks_added (snd (add_article gen props s)) = chunks_added s"
  by (simp_all add: add_article_def split: prod.splits)

lemma add_chunk_store:
  "\<exists>u. chunks_added (add_chunk gen props r s) = chunks_added s @ [(u, props, r)]"
  "articles_added (add_chunk gen props r s) = articles_added s"
  by (simp_all add: add_chunk_def split: prod.splits)

lemma insert_articles_effect:
  "\<exists>new.
     articles_added (store1 (insert_articles gen dn k arts st)) = articles_added (store1 st) @ new
     \<and> map snd new = map (\<lambda>(i, a). article_properties dn i a)
                         (filter (\<lambda>(i, a). \<not> blank a) (enumerate k arts))
     \<and> chunks_added (store1 (insert_articles gen dn k arts st)) = chunks_added (store1 st)
     \<and> (\<forall>i < k. article_uuids (insert_articles gen dn k arts st) i = article_uuids st i)
     \<and> (\<forall>j < length arts.
           if blank (arts ! j)
           then article_uuids (insert_articles gen dn k arts st) (k + j) = Some None
           else (\<exists>u. article_uuids (insert_articles gen dn k arts st) (k + j) = Some (Some u)
                     \<and> (u, article_properties dn (k + j) (arts ! j)) \<in> set new))"
proof (induction arts arbitrary: k st)
  case Nil
  then show ?case by simp
next
  case (Cons a rest)
  define st' where "st' =
       (if strip (get_or (full_content a) []) \<noteq> []
        then (case add_article gen (article_properties dn k a) (store1 st) of
                (article_uuid, s) \<Rightarrow>
                  st\<lparr>article_uuids := (article_uuids st)(k \<mapsto> Some article_uuid),
                     inserted_articles := inserted_articles st + 1,
                     store1 := s\<rparr>)
        else st\<lparr>article_uuids := (article_uuids st)(k \<mapsto> None),
                skipped_articles := skipped_articles st + 1\<rparr>)"
  have run: "insert_articles gen dn k (a # rest) st = insert_articles gen dn (Suc k) rest st'"
    by (simp add: st'_def)
  define u0 where "u0 = fst (add_article gen (article_properties dn k a) (store1 st))"
  define first where "first = (if blank a then [] else [(u0, article_properties dn k a)])"
  have s1: "articles_added (store1 st') = articles_added (store1 st) @ first"
    and s2: "chunks_added (store1 st') = chunks_added (store1 st)"
    and s3: "\<forall>i < k. article_uuids st' i = article_uuids st i"
    and s4: "article_uuids st' k = (if blank a then Some None else Some (Some u0))"
    using add_article_store[of gen "article_properties dn k a" "store1 st"]
    by (auto simp: st'_def first_def blank_def u0_def split: prod.splits)
  from Cons.IH[of "Suc k" st'] obtain new where
    n1: "articles_added (store1 (insert_articles gen dn (Suc k) rest st'))
         = articles_added (store1 st') @ new"
    and n2: "map snd new = map (\<lambda>(i, a). article_properties dn i a)
                         (filter (\<lambda>(i, a). \<not> blank a) (enumerate (Suc k) rest))"
    and n3: "chunks_added (store1 (insert_articles gen dn (Suc k) rest st')) = chunks_added (store1 st')"
    and n4: "\<forall>i < Suc k. article_uuids (insert_articles gen dn (Suc k) rest st') i = article_uuids st' i"
    and n5: "\<forall>j < length rest.
           if blank (rest ! j)
           then article_uuids (insert_articles gen dn (Suc k) rest st') (Suc k + j) = Some None
           else (\<exists>u. article_uuids (insert_articles gen dn (Suc k) rest st') (Suc k + j) = Some (Some u)
                     \<and> (u, article_properties dn (Suc k + j) (rest ! j)) \<in> set new)"
    by blast
  let ?all = "first @ new"
  have a1: "articles_added (store1 (insert_articles gen dn k (a # rest) st))
            = articles_added (store1 st) @ ?all"
    unfolding run n1 s1 by simp
  have a2: "map snd ?all = map (\<lambda>(i, a). article_properties dn i a)
                         (filter (\<lambda>(i, a). \<not> blank a) (enumerate k (a # rest)))"
    by (simp add: n2 first_def)
  have a3: "chunks_added (store1 (insert_articles gen dn k (a # rest) st)) = chunks_added (store1 st)"
    unfolding run n3 s2 by simp
  have a4: "\<forall>i < k. article_uuids (insert_articles gen dn k (a # rest) st) i = article_uuids st i"
    unfolding run using n4 s3 by simp
  have a5: "if blank ((a # rest) ! j)
           then article_uuids (insert_articles gen dn k (a # rest) st) (k + j) = Some None
           else (\<exists>u. article_uuids (insert_articles gen dn k (a # rest) st) (k + j) = Some (Some u)
                     \<and> (u, article_properties dn (k + j) ((a # rest) ! j)) \<in> set ?all)"
    if "j < length (a # rest)" for j
  proof (cases j)
    case 0
    have "article_uuids (insert_articles gen dn k (a # rest) st) k = article_uuids st' k"
      unfolding run using n4 by simp
    then show ?thesis using 0 s4 by (simp add: first_def)
  next
    case (Suc j')
    then have "j' < length rest" using that by simp
    with n5 have "if blank (rest ! j')
           then article_uuids (insert_articles gen dn (Suc k) rest st') (Suc k + j') = Some None
           else (\<exists>u. article_uuids (insert_articles gen dn (Suc k) rest st') (Suc k + j') = Some (Some u)
                     \<and> (u, article_properties dn (Suc k + j') (rest ! j')) \<in> set new)"
      by blast
    then show ?thesis unfolding run using Suc by (cases "blank (rest ! j')") auto
  qed
  show ?case
    using a1 a2 a3 a4 a5 by blast
qed

lemma insert_sub_chunks_effect:
  "\<exists>new.
     chunks_added (store2 (insert_sub_chunks gen tipo dn r cs st)) = chunks_added (store2 st) @ new
     \<and> map snd new = map (\<lambda>c. (sub_chunk_properties tipo dn c, r)) cs
     \<and> articles_added (store2 (insert_sub_chunks gen tipo dn r cs st)) = articles_added (store2 st)
     \<and> chunk_count (insert_sub_chunks gen tipo dn r cs st) = chunk_count st + int (length cs)"
proof (induction cs arbitrary: st)
  case Nil
  then show ?case by simp
next
  case (Cons c rest)
  define st' where "st' =
       ((case r of
           Some u \<Rightarrow>
             st\<lparr>store2 := add_chunk gen (sub_chunk_properties tipo dn c) (Some u) (store2 st),
                chunks_with_reference := chunks_with_reference st + 1\<rparr>
         | None \<Rightarrow>
             st\<lparr>store2 := add_chunk gen (sub_chunk_properties tipo dn c) None (store2 st),
                chunks_without_reference := chunks_without_reference st + 1\<rparr>)
        \<lparr>chunk_count := chunk_count st + 1\<rparr>)"
  have run: "insert_sub_chunks gen tipo dn r (c # rest) st = insert_sub_chunks gen tipo dn r rest st'"
    by (simp add: st'_def)
  have st2: "store2 st' = add_chunk gen (sub_chunk_properties tipo dn c) r (store2 st)"
    and cc: "chunk_count st' = chunk_count st + 1"
    by (simp_all add: st'_def split: option.splits)
  obtain u where s1: "chunks_added (store2 st')
                      = chunks_added (store2 st) @ [(u, sub_chunk_properties tipo dn c, r)]"
    unfolding st2
    using add_chunk_store(1)[of gen "sub_chunk_properties tipo dn c" r "store2 st"] by blast
  have s2: "articles_added (store2 st') = articles_added (store2 st)"
    unfolding st2 by (rule add_chunk_store(2))
  from Cons.IH[of st'] obtain new where
    n1: "chunks_added (store2 (insert_sub_chunks gen tipo dn r rest st')) = chunks_added (store2 st') @ new"
    and n2: "map snd new = map (\<lambda>c. (sub_chunk_properties tipo dn c, r)) rest"
    and n3: "articles_added (store2 (insert_sub_chunks gen tipo dn r rest st')) = articles_added (store2 st')"
    and n4: "chunk_count (insert_sub_chunks gen tipo dn r rest st') = chunk_count st' + int (length rest)"
    by blast
  let ?all = "(u, sub_chunk_properties tipo dn c, r) # new"
  have "chunks_added (store2 (insert_sub_chunks gen tipo dn r (c # rest) st)) = chunks_added (store2 st) @ ?all"
    unfolding run n1 s1 by simp
  moreover have "map snd ?all = map (\<lambda>c. (sub_chunk_properties tipo dn c, r)) (c # rest)"
    by (simp add: n2)
  moreover have "articles_added (store2 (insert_sub_chunks gen tipo dn r (c # rest) st))
                 = articles_added (store2 st)"
    unfolding run n3 s2 by simp
  moreover have "chunk_count (insert_sub_chunks gen tipo dn r (c # rest) st)
                 = chunk_count st + int (length (c # rest))"
    unfolding run n4 cc by simp
  ultimately show ?case by blast
qed

lemma insert_chunks_effect:
  "\<exists>new.
     chunks_added (store2 (insert_chunks gen tipo dn uuids k arts st)) = chunks_added (store2 st) @ new
     \<and> map snd new = concat (map (\<lambda>(i, a). map (\<lambda>c. (sub_chunk_properties tipo dn c, uuid_get uuids i))
                                             (get_or (sub_chunks a) []))
                                (enumerate k arts))
     \<and> articles_added (store2 (insert_chunks gen tipo dn uuids k arts st)) = articles_added (store2 st)"
proof (induction arts arbitrary: k st)
  case Nil
  then show ?case by simp
next
  case (Cons a rest)
  define st' where "st' =
       (if get_or (sub_chunks a) [] = [] then st
        else insert_sub_chunks gen tipo dn (uuid_get uuids k) (get_or (sub_chunks a) []) st)"
  have run: "insert_chunks gen tipo dn uuids k (a # rest) st = insert_chunks gen tipo dn uuids (Suc k) rest st'"
    by (simp add: st'_def)
  have "\<exists>first. chunks_added (store2 st') = chunks_added (store2 st) @ first
          \<and> map snd first = map (\<lambda>c. (sub_chunk_properties tipo dn c, uuid_get uuids k))
                                (get_or (sub_chunks a) [])
          \<and> articles_added (store2 st') = articles_added (store2 st)"
  proof (cases "get_or (sub_chunks a) [] = []")
    case True
    then show ?thesis by (simp add: st'_def)
  next
    case False
    then show ?thesis
      using insert_sub_chunks_effect[of gen tipo dn "uuid_get uuids k" "get_or (sub_chunks a) []" st]
      by (simp add: st'_def) blast
  qed
  then obtain first where
    s1: "chunks_added (store2 st') = chunks_added (store2 st) @ first"
    and s2: "map snd first = map (\<lambda>c. (sub_chunk_properties tipo dn c, uuid_get uuids k))
                                (get_or (sub_chunks a) [])"
    and s3: "articles_added (store2 st') = articles_added (store2 st)"
    by blast
  from Cons.IH[of "Suc k" st'] obtain new where
    n1: "chunks_added (store2 (insert_chunks gen tipo dn uuids (Suc k) rest st'))
         = chunks_added (store2 st') @ new"
    and n2: "map snd new = concat (map (\<lambda>(i, a). map (\<lambda>c. (sub_chunk_properties tipo dn c, uuid_get uuids i))
                                             (get_or (sub_chunks a) []))
                                (enumerate (Suc k) rest))"
    and n3: "articles_added (store2 (insert_chunks gen tipo dn uuids (Suc k) rest st'))
             = articles_added (store2 st')"
    by blast
  have "chunks_added (store2 (insert_chunks gen tipo dn uuids k (a # rest) st))
        = chunks_added (store2 st) @ (first @ new)"
    unfolding run n1 s1 by simp
  moreover have "map snd (first @ new)
     = concat (map (\<lambda>(i, a). map (\<lambda>c. (sub_chunk_properties tipo dn c, uuid_get uuids i))
                                             (get_or (sub_chunks a) []))
                                (enumerate k (a # rest)))"
    by (simp add: s2 n2)
  moreover have "articles_added (store2 (insert_chunks gen tipo dn uuids k (a # rest) st))
                 = articles_added (store2 st)"
    unfolding run n3 s3 by simp
  ultimately show ?case by blast
qed

lemma federal_insert_articles_effect:
  assumes "\<forall>a \<in> set arts. fa_full_content a \<noteq> None \<and> fa_article_name a \<noteq> None"
  shows "\<exists>uuids' s' new.
           federal_insert_articles gen dn arts (uuids, s) = Inr (uuids', s')
           \<and> articles_added s' = articles_added s @ new
           \<and> map snd new = map (\<lambda>a. \<lparr>ao_content = get_or (fa_full_content a) [],
                                      ao_article = get_or (fa_article_name a) [],
                                      ao_document = dn\<rparr>) arts"
  using assms
proof (induction arts arbitrary: uuids s)
  case Nil
  then show ?case by simp
next
  case (Cons a rest)
  obtain body name where a: "fa_full_content a = Some body" "fa_article_name a = Some name"
    using Cons.prems by auto
  define props where "props = \<lparr>ao_content = body, ao_article = name, ao_document = dn\<rparr>"
  obtain u s1 where add: "add_article gen props s = (u, s1)"
    by (cases "add_article gen props s")
  have s1: "articles_added s1 = articles_added s @ [(u, props)]"
    using add_article_store(1)[of gen props s] add by simp
  have run: "federal_insert_articles gen dn (a # rest) (uuids, s)
             = federal_insert_articles gen dn rest (uuids(name \<mapsto> u), s1)"
    by (simp add: a props_def[symmetric] add)
  have "\<forall>a \<in> set rest. fa_full_content a \<noteq> None \<and> fa_article_name a \<noteq> None"
    using Cons.prems by simp
  from Cons.IH[OF this, of "uuids(name \<mapsto> u)" s1] obtain uuids' s' new where
    n: "federal_insert_articles gen dn rest (uuids(name \<mapsto> u), s1) = Inr (uuids', s')"
       "articles_added s' = articles_added s1 @ new"
       "map snd new = map (\<lambda>a. \<lparr>ao_content = get_or (fa_full_content a) [],
                                      ao_article = get_or (fa_article_name a) [],
                                      ao_document = dn\<rparr>) rest"
    by blast
  have "articles_added s' = articles_added s @ ((u, props) # new)"
    by (simp add: n(2) s1)
  moreover have "map snd ((u, props) # new)
       = map (\<lambda>a. \<lparr>ao_content = get_or (fa_full_content a) [],
                                      ao_article = get_or (fa_article_name a) [],
                                      ao_document = dn\<rparr>) (a # rest)"
    by (simp add: n(3) props_def a get_or_def)
  ultimately show ?case unfolding run using n(1) by blast
qed

text \<open>
  Claim C4, as stated, fails in two places. In \<open>mx/populateCollection.py\<close> an article
  whose content is a single space has non-empty content, yet it is not inserted and its
  chunk is added without a reference: the test is on the stripped content. In
  \<open>us/federal/populateCollections.py\<close> an article with empty content is inserted.
\<close>

theorem whitespace_article_gets_no_reference:
  "get_or (full_content \<lparr>full_content = Some '' '',
             sub_chunks = Some [\<lparr>sc_content = Some ''b'', sc_name = Some ''Art 2'',
                                 sc_start_offset = Some 5\<rparr>]\<rparr>) [] \<noteq> []
   \<and> articles_added (snd (populate_collections_batch counter
        \<lparr>md_document_name = Some ''ley'', md_Tipo = Some ''t'',
         md_articles = Some [\<lparr>full_content = Some '' '',
             sub_chunks = Some [\<lparr>sc_content = Some ''b'', sc_name = Some ''Art 2'',
                                 sc_start_offset = Some 5\<rparr>]\<rparr>]\<rparr> empty_store)) = []
   \<and> map (snd \<circ> snd)
        (chunks_added (snd (populate_collections_batch counter
        \<lparr>md_document_name = Some ''ley'', md_Tipo = Some ''t'',
         md_articles = Some [\<lparr>full_content = Some '' '',
             sub_chunks = Some [\<lparr>sc_content = Some ''b'', sc_name = Some ''Art 2'',
                                 sc_start_offset = Some 5\<rparr>]\<rparr>]\<rparr> empty_store))) = [None]
   \<and> federal_insert_articles counter ''cfr''
        [\<lparr>fa_full_content = Some [], fa_article_name = Some ''1.1''\<rparr>] (Map.empty, empty_store)
     = Inr ([''1.1'' \<mapsto> 0],
            \<lparr>uuid_source = 1,
             articles_added = [(0, \<lparr>ao_content = [], ao_article = ''1.1'', ao_document = ''cfr''\<rparr>)],
             chunks_added = []\<rparr>)"
  by (simp add: populate_collections_batch_def step1_of_def step2_of_def get_or_def Let_def
        strip_def isspace_def add_article_def add_chunk_def counter_def empty_store_def
        uuid_get_def)

text \<open>
  Claim C4, amended. In \<open>mx/populateCollection.py\<close>, with \<open>blank\<close> meaning that the
  content is empty or made of whitespace only: the articles inserted are exactly the
  articles that are not blank, in order; the index of a blank article is recorded with
  \<open>None\<close>, that of any other article with the identifier under which the article was
  inserted; and the chunks inserted are the sub-chunks of all the articles, in order,
  each carrying what the dictionary holds at the index of its article, so a reference
  to the parent's identifier when the parent is not blank and no reference when it is.
  Step 1 of \<open>us/federal/populateCollections.py\<close> inserts every article, whatever its
  content, when the two keys it reads are present in each.
\<close>

theorem chunks_reference_inserted_parents:
  "map snd (new_articles s0 (snd (populate_collections_batch gen data s0)))
     = map (\<lambda>(i, a). article_properties (get_or (md_document_name data) []) i a)
         (filter (\<lambda>(i, a). \<not> blank a) (enumerate 0 (get_or (md_articles data) [])))
   \<and> (\<forall>i < length (get_or (md_articles data) []).
         if blank (get_or (md_articles data) [] ! i)
         then article_uuids (step1_of gen data s0) i = Some None
         else (\<exists>u. article_uuids (step1_of gen data s0) i = Some (Some u)
                   \<and> (u, article_properties (get_or (md_document_name data) []) i
                            (get_or (md_articles data) [] ! i))
                       \<in> set (new_articles s0 (snd (populate_collections_batch gen data s0)))))
   \<and> map snd (new_chunks s0 (snd (populate_collections_batch gen data s0)))
     = concat (map (\<lambda>(i, a). map (\<lambda>c. (sub_chunk_properties (get_or (md_Tipo data) [])
                                          (get_or (md_document_name data) []) c,
                                        uuid_get (article_uuids (step1_of gen data s0)) i))
                                 (get_or (sub_chunks a) []))
                 (enumerate 0 (get_or (md_articles data) [])))
   \<and> ((\<forall>a \<in> set farts. fa_full_content a \<noteq> None \<and> fa_article_name a \<noteq> None) \<longrightarrow>
        (\<exists>uuids' s'. federal_insert_articles gen dn farts (uuids, s0) = Inr (uuids', s')
           \<and> map snd (new_articles s0 s')
             = map (\<lambda>a. \<lparr>ao_content = get_or (fa_full_content a) [],
                          ao_article = get_or (fa_article_name a) [],
                          ao_document = dn\<rparr>) farts))"
proof -
  let ?dn = "get_or (md_document_name data) []"
  let ?tipo = "get_or (md_Tipo data) []"
  let ?arts = "get_or (md_articles data) []"
  let ?p0 = "\<lparr>article_uuids = Map.empty, inserted_articles = 0, skipped_articles = 0,
              store1 = s0\<rparr>"
  let ?st1 = "step1_of gen data s0"
  let ?q0 = "\<lparr>chunk_count = 0, chunks_with_reference = 0, chunks_without_reference = 0,
              store2 = store1 ?st1\<rparr>"
  let ?st2 = "step2_of gen data ?st1"
  have st1: "?st1 = insert_articles gen ?dn 0 ?arts ?p0" by (simp add: step1_of_def)
  have st2: "?st2 = insert_chunks gen ?tipo ?dn (article_uuids ?st1) 0 ?arts ?q0"
    by (simp add: step2_of_def)
  have res: "snd (populate_collections_batch gen data s0) = store2 ?st2"
    by (simp add: populate_collections_batch_def Let_def)
  from insert_articles_effect[of gen ?dn 0 ?arts ?p0] obtain new where
    a1: "articles_added (store1 ?st1) = articles_added s0 @ new"
    and a2: "map snd new = map (\<lambda>(i, a). article_properties ?dn i a)
                         (filter (\<lambda>(i, a). \<not> blank a) (enumerate 0 ?arts))"
    and a3: "chunks_added (store1 ?st1) = chunks_added s0"
    and a5: "\<forall>j < length ?arts.
           if blank (?arts ! j)
           then article_uuids ?st1 (0 + j) = Some None
           else (\<exists>u. article_uuids ?st1 (0 + j) = Some (Some u)
                     \<and> (u, article_properties ?dn (0 + j) (?arts ! j)) \<in> set new)"
    unfolding st1[symmetric] by auto
  from insert_chunks_effect[of gen ?tipo ?dn "article_uuids ?st1" 0 ?arts ?q0] obtain newc where
    c1: "chunks_added (store2 ?st2) = chunks_added (store1 ?st1) @ newc"
    and c2: "map snd newc = concat (map (\<lambda>(i, a). map (\<lambda>c. (sub_chunk_properties ?tipo ?dn c,
                                                         uuid_get (article_uuids ?st1) i))
                                             (get_or (sub_chunks a) []))
                                (enumerate 0 ?arts))"
    and c3: "articles_added (store2 ?st2) = articles_added (store1 ?st1)"
    unfolding st2[symmetric] by auto
  have na: "new_articles s0 (snd (populate_collections_batch gen data s0)) = new"
    by (simp add: new_articles_def res c3 a1)
  have nc: "new_chunks s0 (snd (populate_collections_batch gen data s0)) = newc"
    by (simp add: new_chunks_def res c1 a3)
  have fed: "\<exists>uuids' s'. federal_insert_articles gen dn farts (uuids, s0) = Inr (uuids', s')
           \<and> map snd (new_articles s0 s')
             = map (\<lambda>a. \<lparr>ao_content = get_or (fa_full_content a) [],
                          ao_article = get_or (fa_article_name a) [],
                          ao_document = dn\<rparr>) farts"
    if "\<forall>a \<in> set farts. fa_full_content a \<noteq> None \<and> fa_article_name a \<noteq> None"
  proof -
    from federal_insert_articles_effect[OF that, of gen dn uuids s0] obtain uuids' s' newf where
      "federal_insert_articles gen dn farts (uuids, s0) = Inr (uuids', s')"
      "articles_added s' = articles_added s0 @ newf"
      "map snd newf = map (\<lambda>a. \<lparr>ao_content = get_or (fa_full_content a) [],
                          ao_article = get_or (fa_article_name a) [],
                          ao_document = dn\<rparr>) farts"
      by blast
    then show ?thesis by (auto simp: new_articles_def)
  qed
  have a5': "\<forall>i < length ?arts.
           if blank (?arts ! i)
           then article_uuids ?st1 i = Some None
           else (\<exists>u. article_uuids ?st1 i = Some (Some u)
                     \<and> (u, article_properties ?dn i (?arts ! i)) \<in> set new)"
    using a5 unfolding add_0 .
  show ?thesis
    unfolding na nc
  proof (intro conjI)
    show "map snd new = map (\<lambda>(i, a). article_properties ?dn i a)
                         (filter (\<lambda>(i, a). \<not> blank a) (enumerate 0 ?arts))"
      by (rule a2)
    show "\<forall>i < length ?arts.
           if blank (?arts ! i)
           then article_uuids ?st1 i = Some None
           else (\<exists>u. article_uuids ?st1 i = Some (Some u)
                     \<and> (u, article_properties ?dn i (?arts ! i)) \<in> set new)"
      by (rule a5')
    show "map snd newc = concat (map (\<lambda>(i, a). map (\<lambda>c. (sub_chunk_properties ?tipo ?dn c,
                                                         uuid_get (article_uuids ?st1) i))
                                             (get_or (sub_chunks a) []))
                                (enumerate 0 ?arts))"
      by (rule c2)
    show "(\<forall>a \<in> set farts. fa_full_content a \<noteq> None \<and> fa_article_name a \<noteq> None) \<longrightarrow>
        (\<exists>uuids' s'. federal_insert_articles gen dn farts (uuids, s0) = Inr (uuids', s')
           \<and> map snd (new_articles s0 s')
             = map (\<lambda>a. \<lparr>ao_content = get_or (fa_full_content a) [],
                          ao_article = get_or (fa_article_name a) [],
                          ao_document = dn\<rparr>) farts)"
      using fed by blast
  qed
qed

theorem chunks_reference_inserted_parents_witness:
  "\<not> blank (get_or (md_articles example_data) [] ! 0)
   \<and> blank (get_or (md_articles example_data) [] ! 1)
   \<and> article_uuids (step1_of counter example_data empty_store) 1 = Some None
   \<and> (\<exists>u. article_uuids (step1_of counter example_data empty_store) 0 = Some (Some u)
          \<and> (u, article_properties (get_or (md_document_name example_data) []) 0
                   (get_or (md_articles example_data) [] ! 0))
              \<in> set (new_articles empty_store
                        (snd (populate_collections_batch counter example_data empty_store))))
   \<and> map snd (map snd (new_chunks empty_store
                 (snd (populate_collections_batch counter example_data empty_store))))
     = [Some 0, None]
   \<and> map (ao_article \<circ> snd) (new_articles empty_store
                 (snd (populate_collections_batch counter example_data empty_store)))
     = [''Art 1'', ''article_2'']
   \<and> (\<exists>uuids' s'. federal_insert_articles counter ''cfr'' example_federal (Map.empty, empty_store)
                      = Inr (uuids', s')
          \<and> map (ao_content \<circ> snd) (new_articles empty_store s') = [[], ''text''])"
proof -
  let ?arts = "get_or (md_articles example_data) []"
  have len: "length ?arts = 3" by (simp add: example_data_def get_or_def)
  have b0: "\<not> blank (?arts ! 0)"
    by (simp add: example_data_def get_or_def blank_def strip_def isspace_def)
  have b1: "blank (?arts ! 1)"
    by (simp add: example_data_def get_or_def blank_def strip_def isspace_def)
  have "str_nat 2 = ''2''" by code_simp
  then have str_nat_2: "str_nat (Suc (Suc 0)) = ''2''"
    by (simp only: numeral_2_eq_2)
  have keys: "\<forall>a \<in> set example_federal. fa_full_content a \<noteq> None \<and> fa_article_name a \<noteq> None"
    by (simp add: example_federal_def)
  note t = chunks_reference_inserted_parents
      [where gen = counter and data = example_data and ?s0.0 = empty_store
         and farts = example_federal and dn = "''cfr''" and uuids = Map.empty]
  note inserted = t[THEN conjunct1]
  note recorded = t[THEN conjunct2, THEN conjunct1, rule_format]
  note chunks = t[THEN conjunct2, THEN conjunct2, THEN conjunct1]
  note federal = t[THEN conjunct2, THEN conjunct2, THEN conjunct2, THEN mp, OF keys]
  have u1: "article_uuids (step1_of counter example_data empty_store) 1 = Some None"
    using recorded[of 1] b1 len by simp
  have u0: "\<exists>u. article_uuids (step1_of counter example_data empty_store) 0 = Some (Some u)
          \<and> (u, article_properties (get_or (md_document_name example_data) []) 0 (?arts ! 0))
              \<in> set (new_articles empty_store
                        (snd (populate_collections_batch counter example_data empty_store)))"
    using recorded[of 0] b0 len by simp
  have refs: "map snd (map snd (new_chunks empty_store
                 (snd (populate_collections_batch counter example_data empty_store))))
     = [Some 0, None]"
    unfolding chunks
    by (simp add: example_data_def get_or_def enumerate_eq_zip upt_rec step1_of_def uuid_get_def
          strip_def isspace_def add_article_def counter_def empty_store_def)
  have names: "map (ao_article \<circ> snd) (new_articles empty_store
                 (snd (populate_collections_batch counter example_data empty_store)))
     = [''Art 1'', ''article_2'']"
    unfolding map_map[symmetric] inserted
    by (simp add: example_data_def get_or_def enumerate_eq_zip upt_rec blank_def strip_def
          isspace_def article_properties_def Let_def str_nat_2 del: str_nat.simps)
  from federal obtain uuids' s' where
    f: "federal_insert_articles counter ''cfr'' example_federal (Map.empty, empty_store)
          = Inr (uuids', s')"
       "map snd (new_articles empty_store s')
          = map (\<lambda>a. \<lparr>ao_content = get_or (fa_full_content a) [],
                       ao_article = get_or (fa_article_name a) [], ao_document = ''cfr''\<rparr>)
              example_federal"
    by blast
  have g: "map (ao_content \<circ> snd) (new_articles empty_store s') = [[], ''text'']"
    unfolding map_map[symmetric] f(2) by (simp add: example_federal_def get_or_def)
  have fed: "\<exists>uuids' s'. federal_insert_articles counter ''cfr'' example_federal
                                     (Map.empty, empty_store) = Inr (uuids', s')
          \<and> map (ao_content \<circ> snd) (new_articles empty_store s') = [[], ''text'']"
    by (rule exI[of _ uuids'], rule exI[of _ s'], rule conjI[OF f(1) g])
  show ?thesis
    by (intro conjI) (rule b0, rule b1, rule u1, rule u0, rule refs, rule names, rule fed)
qed

section \<open>The ancestors of a line\<close>

text \<open>
  Claim C10 on a line whose ancestors are \<open>parent_1\<close> and \<open>parent_2\<close>, without a
  \<open>parent_0\<close>: the article is the value of \<open>parent_2\<close>, and \<open>fromArticle\<close> holds that value
  only. The slice \<open>parent_keys[1:]\<close> drops the first key in numeric order whatever its
  number, where the comment beside it reads \<open>all parents except parent_0\<close>. With a
  \<open>parent_0\<close> the values of the other keys come in numeric order, \<open>parent_9\<close> before
  \<open>parent_10\<close>, and a line without such keys gives an empty article and an empty list.
\<close>

theorem extract_parent_info_drops_first_parent:
  "extract_parent_info [(''parent_1'', ''A''), (''parent_2'', ''B'')] = Inr (''B'', [''B''])
   \<and> extract_parent_info [(''parent_10'', ''J''), (''parent_9'', ''I''), (''parent_0'', ''T'')]
     = Inr (''J'', [''I'', ''J''])
   \<and> extract_parent_info [(''title'', ''x'')] = Inr ([], [])"
  by (simp add: extract_parent_info_def startswith_def parent_number_def py_int_def strip_def
        isspace_def parse_digits_def is_digit_def digits_value_def get_or_def Let_def)

end
